theory Spec2Isabelle
  imports Main "HOL-Library.Word"
begin

unbundle bit_operations_syntax

section \<open>Data shared by the modules\<close>

text \<open>
  A Node \<open>Buffer\<close> (and a \<open>Uint8Array\<close>) is a sequence of bytes. A JavaScript \<open>BigInt\<close> is
  an unbounded integer, modelled as \<open>int\<close>; the shifts \<open>>>\<close> and the masks \<open>&\<close> on a
  \<open>BigInt\<close> are two's complement operations, as \<open>drop_bit\<close> and \<open>AND\<close> on \<open>int\<close> are.
  \<open>Date.now()\<close> is the one source of time: every call of it takes the next reading of a
  clock trace, a list of integer milliseconds. A call that asks for a reading when the
  trace is used up has not returned within the trace: its value is \<open>None\<close>.
\<close>

type_synonym byte = "8 word"
type_synonym buffer = "byte list"
type_synonym clock = "int list"

text \<open>
  Every \<open>throw new Error(...)\<close> of the modelled code is one constructor; the comment gives
  the message the source builds.
\<close>

datatype error =
    MaxSubMsOutOfBounds int
      \<comment> \<open>constructor: \<open>maxSubMs must be between 1 and 65536, got ...\<close>\<close>
  | UnknownWaitStrategy string
      \<comment> \<open>constructor: \<open>waitStrategy must be "increment" or "wait", got "..."\<close>\<close>
  | Exceeds48BitLimit int
      \<comment> \<open>\<open>_timestampToBuffer\<close>: \<open>Timestamp ... exceeds 48-bit limit (max: ...). ...\<close>\<close>
  | InvalidTimestampBuffer
      \<comment> \<open>\<open>bufferToTimestamp\<close>: \<open>Invalid timestamp buffer: must be 6 bytes\<close>\<close>
  | InvalidCharacters
      \<comment> \<open>\<open>decodeBase64URL\<close>: \<open>Invalid Base64URL string: contains invalid characters\<close>\<close>
  | Expected6Bytes nat
      \<comment> \<open>\<open>timestampToBase64URL\<close>: \<open>Expected 6-byte timestamp buffer, got ... bytes\<close>\<close>
  | Expected8Characters nat
      \<comment> \<open>\<open>timestampToBase64URL\<close>: \<open>Expected 8-character Base64URL output, got ...\<close>\<close>
  | InvalidTimestampBase64URL
      \<comment> \<open>\<open>base64URLToTimestamp\<close>: \<open>Invalid timestamp Base64URL: must be 8 characters ...\<close>\<close>
  | UnsupportedFormat string
      \<comment> \<open>\<open>formatOutput\<close>: \<open>Unsupported format: .... Supported formats: ...\<close>\<close>
  | InvalidFormat string
      \<comment> \<open>\<open>validate\<close>: \<open>Invalid format "...". Supported formats: ...\<close>\<close>
  | InvalidTimestampForFormat string
      \<comment> \<open>\<open>convert\<close>: \<open>Invalid timestamp for format "..."\<close>\<close>
  | UnsupportedSourceFormat string
      \<comment> \<open>\<open>convert\<close>: \<open>Unsupported source format: ...\<close>\<close>
  | TimestampExceedsLimit
      \<comment> \<open>\<open>generate\<close> of index.js: \<open>Timestamp exceeds 48-bit limit. This error indicates ...\<close>\<close>
  | GeneratorTimestampExceedsLimit
      \<comment> \<open>\<open>TimestampGenerator.generate\<close>: \<open>Timestamp exceeds 48-bit limit. System time is ...\<close>\<close>
  | FailedToGenerate error
      \<comment> \<open>\<open>generate\<close> of index.js: \<open>Failed to generate timestamp: \<close> and the caught message\<close>

section \<open>timestamp.js: the 48-bit generator\<close>

record UUID48Timestamp =
  lastSystemTime :: int
  subMillisecondCounter :: int
  maxSubMs :: int
  waitStrategy :: string

text \<open>
  The options object of the constructor: a field that is absent is \<open>None\<close>. In
  \<open>options.maxSubMs || 4096\<close> the number 0 is falsy, and so is the empty string in
  \<open>options.waitStrategy || "increment"\<close>.
\<close>

record options =
  opt_maxSubMs :: "int option"
  opt_waitStrategy :: "string option"

definition new_UUID48Timestamp :: "options \<Rightarrow> error + UUID48Timestamp" where
  "new_UUID48Timestamp opts =
     (let m = (case opt_maxSubMs opts of None \<Rightarrow> 4096 | Some n \<Rightarrow> if n = 0 then 4096 else n);
          w = (case opt_waitStrategy opts of None \<Rightarrow> ''increment''
                 | Some s \<Rightarrow> if s = [] then ''increment'' else s)
      in if m \<le> 0 \<or> m > 65536 then Inl (MaxSubMsOutOfBounds m)
         else if w \<notin> set [''increment'', ''wait''] then Inl (UnknownWaitStrategy w)
         else Inr \<lparr>lastSystemTime = 0, subMillisecondCounter = 0, maxSubMs = m,
                   waitStrategy = w\<rparr>)"

definition timestampToBuffer :: "int \<Rightarrow> error + buffer" where
  "timestampToBuffer timestamp =
     (let maxValue = 0xFFFFFFFFFFFF in
      if timestamp > maxValue then Inl (Exceeds48BitLimit timestamp)
      else Inr [of_int (drop_bit 40 timestamp AND 0xFF),
                of_int (drop_bit 32 timestamp AND 0xFF),
                of_int (drop_bit 24 timestamp AND 0xFF),
                of_int (drop_bit 16 timestamp AND 0xFF),
                of_int (drop_bit 8 timestamp AND 0xFF),
                of_int (timestamp AND 0xFF)])"

text \<open>
  The handlers mutate the instance and then return or throw: the model returns the
  outcome together with the instance as the call leaves it, also when the outcome is the
  error of \<open>_timestampToBuffer\<close>.
\<close>

definition handleNewMillisecond ::
  "UUID48Timestamp \<Rightarrow> int \<Rightarrow> (error + buffer) \<times> UUID48Timestamp" where
  "handleNewMillisecond g systemTime =
     (timestampToBuffer systemTime,
      g\<lparr>lastSystemTime := systemTime, subMillisecondCounter := 0\<rparr>)"

definition handleClockBackward ::
  "UUID48Timestamp \<Rightarrow> int \<Rightarrow> (error + buffer) \<times> UUID48Timestamp" where
  "handleClockBackward g systemTime =
     (timestampToBuffer (lastSystemTime g + 1),
      g\<lparr>lastSystemTime := lastSystemTime g + 1, subMillisecondCounter := 0\<rparr>)"

text \<open>
  \<open>generate\<close>, \<open>_handleSameMillisecond\<close> and \<open>_waitForNextMillisecond\<close> call each other.
  The busy wait reads the clock until a reading differs from \<open>lastSystemTime\<close>, drops that
  reading, and calls \<open>generate\<close>, which reads the clock again.
\<close>

function generate ::
    "UUID48Timestamp \<Rightarrow> clock \<Rightarrow> ((error + buffer) \<times> UUID48Timestamp \<times> clock) option"
  and handleSameMillisecond ::
    "UUID48Timestamp \<Rightarrow> int \<Rightarrow> clock \<Rightarrow> ((error + buffer) \<times> UUID48Timestamp \<times> clock) option"
  and waitForNextMillisecond ::
    "UUID48Timestamp \<Rightarrow> clock \<Rightarrow> ((error + buffer) \<times> UUID48Timestamp \<times> clock) option"
where
  "generate g [] = None"
| "generate g (systemTime # clk) =
     (if systemTime = lastSystemTime g then handleSameMillisecond g systemTime clk
      else if systemTime > lastSystemTime g then
        (case handleNewMillisecond g systemTime of (r, g') \<Rightarrow> Some (r, g', clk))
      else
        (case handleClockBackward g systemTime of (r, g') \<Rightarrow> Some (r, g', clk)))"
| "handleSameMillisecond g systemTime clk =
     (let g1 = g\<lparr>subMillisecondCounter := subMillisecondCounter g + 1\<rparr> in
      if subMillisecondCounter g1 \<ge> maxSubMs g1 then
        (if waitStrategy g1 = ''wait'' then waitForNextMillisecond g1 clk
         else
           Some (timestampToBuffer (systemTime + 1),
                 g1\<lparr>lastSystemTime := systemTime + 1, subMillisecondCounter := 0\<rparr>, clk))
      else Some (timestampToBuffer systemTime, g1, clk))"
| "waitForNextMillisecond g [] = None"
| "waitForNextMillisecond g (t # clk) =
     (if t = lastSystemTime g then waitForNextMillisecond g clk else generate g clk)"
  by pat_completeness auto
termination
  by (relation "measure (\<lambda>x. case x of
         Inl (g, clk) \<Rightarrow> 2 * length clk
       | Inr (Inl (g, t, clk)) \<Rightarrow> 2 * length clk + 1
       | Inr (Inr (g, clk)) \<Rightarrow> 2 * length clk)") auto

text \<open>
  The static methods. A buffer of the model is always a \<open>Buffer\<close>, so the
  \<open>Buffer.isBuffer\<close> test of the source is true here; six bytes never exceed 48 bits, and
  the source compares all the same.
\<close>

definition bufferValue :: "buffer \<Rightarrow> int" where
  "bufferValue b =
     push_bit 40 (uint (b ! 0)) OR push_bit 32 (uint (b ! 1)) OR push_bit 24 (uint (b ! 2)) OR
     push_bit 16 (uint (b ! 3)) OR push_bit 8 (uint (b ! 4)) OR uint (b ! 5)"

definition validateBuffer :: "buffer \<Rightarrow> bool" where
  "validateBuffer b = (if length b \<noteq> 6 then False else bufferValue b \<le> 0xFFFFFFFFFFFF)"

definition bufferToTimestamp :: "buffer \<Rightarrow> error + int" where
  "bufferToTimestamp b =
     (if \<not> validateBuffer b then Inl InvalidTimestampBuffer else Inr (bufferValue b))"

text \<open>
  A caller that makes \<open>n\<close> calls of \<open>generate\<close> on one instance, one after the other, and
  keeps every outcome (it catches what a call throws and goes on).
\<close>

fun generateTimes ::
  "nat \<Rightarrow> UUID48Timestamp \<Rightarrow> clock \<Rightarrow> ((error + buffer) list \<times> UUID48Timestamp \<times> clock) option"
where
  "generateTimes 0 g clk = Some ([], g, clk)"
| "generateTimes (Suc n) g clk =
     (case generate g clk of
        None \<Rightarrow> None
      | Some (r, g', clk') \<Rightarrow>
          (case generateTimes n g' clk' of
             None \<Rightarrow> None
           | Some (rs, g'', clk'') \<Rightarrow> Some (r # rs, g'', clk'')))"

section \<open>The platform's Base64 and hexadecimal conversions\<close>

text \<open>
  \<open>Buffer.prototype.toString("base64")\<close> and \<open>btoa\<close> are the Base64 of RFC 4648 with
  padding: three bytes give four characters, a rest of one byte gives two characters and
  \<open>==\<close>, a rest of two bytes gives three characters and \<open>=\<close>.
\<close>

definition base64_alphabet :: string where
  "base64_alphabet = ''ABCDEFGHIJKLMNOPQRSTUVWXYZabcdefghijklmnopqrstuvwxyz0123456789+/''"

definition base64_char :: "nat \<Rightarrow> char" where
  "base64_char n = base64_alphabet ! n"

fun sextets :: "buffer \<Rightarrow> nat list" where
  "sextets (a # b # c # rest) =
     [unat a div 4, (unat a mod 4) * 16 + unat b div 16,
      (unat b mod 16) * 4 + unat c div 64, unat c mod 64] @ sextets rest"
| "sextets [a, b] = [unat a div 4, (unat a mod 4) * 16 + unat b div 16, (unat b mod 16) * 4]"
| "sextets [a] = [unat a div 4, (unat a mod 4) * 16]"
| "sextets [] = []"

definition base64_encode :: "buffer \<Rightarrow> string" where
  "base64_encode b =
     map base64_char (sextets b) @ replicate ((3 - length b mod 3) mod 3) (CHR ''='')"

text \<open>
  \<open>Buffer.from(s, "base64")\<close> never throws. It reads the characters up to the first
  \<open>=\<close>, skips every character that is not of the Base64 or the URL-safe alphabet, and
  turns each full group of four characters into three bytes; a last group of three
  characters gives two bytes, one of two characters gives one byte (the bits left over are
  dropped), and a single last character gives nothing.
\<close>

fun index_of :: "'a \<Rightarrow> 'a list \<Rightarrow> nat option" where
  "index_of x [] = None"
| "index_of x (y # ys) = (if x = y then Some 0 else map_option Suc (index_of x ys))"

definition unbase64 :: "char \<Rightarrow> nat option" where
  "unbase64 c =
     (if c = CHR ''-'' then Some 62 else if c = CHR ''_'' then Some 63
      else index_of c base64_alphabet)"

fun unsextets :: "nat list \<Rightarrow> buffer" where
  "unsextets (a # b # c # d # rest) =
     [of_nat (a * 4 + b div 16), of_nat ((b mod 16) * 16 + c div 4),
      of_nat ((c mod 4) * 64 + d)] @ unsextets rest"
| "unsextets [a, b, c] = [of_nat (a * 4 + b div 16), of_nat ((b mod 16) * 16 + c div 4)]"
| "unsextets [a, b] = [of_nat (a * 4 + b div 16)]"
| "unsextets [a] = []"
| "unsextets [] = []"

definition base64_decode :: "string \<Rightarrow> buffer" where
  "base64_decode s =
     unsextets (List.map_filter unbase64 (takeWhile (\<lambda>c. c \<noteq> CHR ''='') s))"

text \<open>
  \<open>Buffer.prototype.toString("hex")\<close> writes two lower-case digits for each byte;
  \<open>Buffer.from(s, "hex")\<close> reads pairs of digits and stops at the first pair that is not
  hexadecimal.
\<close>

definition hex_digit :: "nat \<Rightarrow> char" where
  "hex_digit n = ''0123456789abcdef'' ! n"

definition toString_hex :: "buffer \<Rightarrow> string" where
  "toString_hex b = concat (map (\<lambda>x. [hex_digit (unat x div 16), hex_digit (unat x mod 16)]) b)"

definition unhex :: "char \<Rightarrow> nat option" where
  "unhex c =
     (case index_of c ''0123456789abcdef'' of
        Some n \<Rightarrow> Some n
      | None \<Rightarrow> map_option (\<lambda>n. n + 10) (index_of c ''ABCDEF''))"

fun from_hex :: "string \<Rightarrow> buffer" where
  "from_hex (a # b # rest) =
     (case (unhex a, unhex b) of
        (Some x, Some y) \<Rightarrow> of_nat (x * 16 + y) # from_hex rest
      | _ \<Rightarrow> [])"
| "from_hex [a] = []"
| "from_hex [] = []"

text \<open>\<open>s.replace(/a/g, b)\<close> for single characters, and \<open>s.includes(t)\<close>.\<close>

definition replace_all :: "char \<Rightarrow> char \<Rightarrow> string \<Rightarrow> string" where
  "replace_all a b s = map (\<lambda>c. if c = a then b else c) s"

fun string_includes :: "string \<Rightarrow> string \<Rightarrow> bool" where
  "string_includes [] t = (t = [])"
| "string_includes (c # cs) t = (take (length t) (c # cs) = t \<or> string_includes cs t)"

text \<open>
  What the two replacements of \<open>encodeBase64URL\<close> and of \<open>_toBase64Url\<close> do to one
  character, and what the two replacements of \<open>decodeBase64URL\<close> do.
\<close>

definition url_char :: "char \<Rightarrow> char" where
  "url_char c = (if c = CHR ''+'' then CHR ''-'' else if c = CHR ''/'' then CHR ''_'' else c)"

definition std_char :: "char \<Rightarrow> char" where
  "std_char c = (if c = CHR ''-'' then CHR ''+'' else if c = CHR ''_'' then CHR ''/'' else c)"

section \<open>base64url.js\<close>

text \<open>
  The arguments have the types the \<open>Buffer.isBuffer\<close> and \<open>typeof\<close> guards of the source
  ask for. A character of the class \<open>[A-Za-z0-9_-]\<close> is one of \<open>base64url_alphabet\<close>. A
  JavaScript string with a character beyond the 8-bit range has no counterpart among these
  strings; the regular expressions reject it.
\<close>

definition encodeBase64URL :: "buffer \<Rightarrow> string" where
  "encodeBase64URL buffer =
     (if length buffer = 0 then []
      else filter (\<lambda>c. c \<noteq> CHR ''='')
             (replace_all (CHR ''/'') (CHR ''_'')
               (replace_all (CHR ''+'') (CHR ''-'') (base64_encode buffer))))"

definition base64url_alphabet :: string where
  "base64url_alphabet = ''ABCDEFGHIJKLMNOPQRSTUVWXYZabcdefghijklmnopqrstuvwxyz0123456789_-''"

definition decodeBase64URL :: "string \<Rightarrow> error + buffer" where
  "decodeBase64URL str =
     (if length str = 0 then Inr []
      else if \<not> list_all (\<lambda>c. c \<in> set base64url_alphabet) str then Inl InvalidCharacters
      else
        let padded = str @ replicate ((4 - length str mod 4) mod 4) (CHR ''='');
            base64 = replace_all (CHR ''_'') (CHR ''/'') (replace_all (CHR ''-'') (CHR ''+'') padded)
        in Inr (base64_decode base64))"

definition isValidBase64URL :: "string \<Rightarrow> bool" where
  "isValidBase64URL str =
     (if length str = 0 then True
      else if \<not> list_all (\<lambda>c. c \<in> set base64url_alphabet) str then False
      else if CHR ''='' \<in> set str then False
      else (case decodeBase64URL str of Inr b \<Rightarrow> True | Inl e \<Rightarrow> False))"

definition isValidTimestampBase64URL :: "string \<Rightarrow> bool" where
  "isValidTimestampBase64URL str =
     (if \<not> isValidBase64URL str \<or> length str \<noteq> 8 then False
      else (case decodeBase64URL str of Inr decoded \<Rightarrow> length decoded = 6 | Inl e \<Rightarrow> False))"

definition timestampToBase64URL :: "buffer \<Rightarrow> error + string" where
  "timestampToBase64URL timestampBuffer =
     (if length timestampBuffer \<noteq> 6 then Inl (Expected6Bytes (length timestampBuffer))
      else
        let encoded = encodeBase64URL timestampBuffer
        in if length encoded \<noteq> 8 then Inl (Expected8Characters (length encoded))
           else Inr encoded)"

definition base64URLToTimestamp :: "string \<Rightarrow> error + buffer" where
  "base64URLToTimestamp base64url =
     (if \<not> isValidTimestampBase64URL base64url then Inl InvalidTimestampBase64URL
      else decodeBase64URL base64url)"

section \<open>index.js: formats, validation, conversion\<close>

text \<open>
  The values the dynamically typed entry points take and return: \<open>null\<close> or
  \<open>undefined\<close>, a string, a \<open>Buffer\<close>, or a value of another type. A format token is a
  string; the \<open>switch\<close> statements compare it with \<open>===\<close>.
\<close>

datatype jsvalue = JSNull | JSString string | JSBuffer buffer | JSOther

definition formatOutput :: "buffer \<Rightarrow> string \<Rightarrow> error + jsvalue" where
  "formatOutput buffer format =
     (if format = ''buffer'' then Inr (JSBuffer buffer)
      else if format = ''hex'' then Inr (JSString (toString_hex buffer))
      else if format = ''base64url'' then
        (case timestampToBase64URL buffer of Inl e \<Rightarrow> Inl e | Inr t \<Rightarrow> Inr (JSString t))
      else Inl (UnsupportedFormat format))"

text \<open>
  \<open>error.message.includes("48-bit limit")\<close>: the fixed text of a message has the phrase
  or has not, and a message that quotes a token of the caller has it when the token has.
\<close>

fun message_includes_48_bit_limit :: "error \<Rightarrow> bool" where
  "message_includes_48_bit_limit (Exceeds48BitLimit t) = True"
| "message_includes_48_bit_limit TimestampExceedsLimit = True"
| "message_includes_48_bit_limit GeneratorTimestampExceedsLimit = True"
| "message_includes_48_bit_limit (FailedToGenerate e) = message_includes_48_bit_limit e"
| "message_includes_48_bit_limit (UnknownWaitStrategy w) = string_includes w ''48-bit limit''"
| "message_includes_48_bit_limit (UnsupportedFormat f) = string_includes f ''48-bit limit''"
| "message_includes_48_bit_limit (InvalidFormat f) = string_includes f ''48-bit limit''"
| "message_includes_48_bit_limit (InvalidTimestampForFormat f) =
     string_includes f ''48-bit limit''"
| "message_includes_48_bit_limit (UnsupportedSourceFormat f) =
     string_includes f ''48-bit limit''"
| "message_includes_48_bit_limit e = False"

text \<open>
  \<open>generate(format)\<close> of index.js on the default generator: the instance is passed in and
  handed back. Whatever the \<open>try\<close> block throws is replaced by one of two errors.
\<close>

definition index_generate ::
  "UUID48Timestamp \<Rightarrow> clock \<Rightarrow> string \<Rightarrow> ((error + jsvalue) \<times> UUID48Timestamp \<times> clock) option"
where
  "index_generate defaultGenerator clk format =
     (case generate defaultGenerator clk of
        None \<Rightarrow> None
      | Some (r, g', clk') \<Rightarrow>
          Some (case (case r of Inl e \<Rightarrow> Inl e | Inr buffer \<Rightarrow> formatOutput buffer format) of
                  Inl e \<Rightarrow>
                    if message_includes_48_bit_limit e then Inl TimestampExceedsLimit
                    else Inl (FailedToGenerate e)
                | Inr v \<Rightarrow> Inr v,
                g', clk'))"

text \<open>
  The class \<open>TimestampGenerator\<close> holds a generator of its own and a default format.
  Its \<open>generate\<close> takes the format as an optional argument and does what \<open>generate\<close> of
  index.js does, with another message for the limit.
\<close>

record TimestampGenerator =
  algorithm :: UUID48Timestamp
  defaultFormat :: string

definition TimestampGenerator_generate ::
  "TimestampGenerator \<Rightarrow> clock \<Rightarrow> string option \<Rightarrow>
     ((error + jsvalue) \<times> TimestampGenerator \<times> clock) option"
where
  "TimestampGenerator_generate this clk format_arg =
     (let format = (case format_arg of None \<Rightarrow> defaultFormat this | Some f \<Rightarrow> f)
      in case generate (algorithm this) clk of
           None \<Rightarrow> None
         | Some (r, g', clk') \<Rightarrow>
             Some (case (case r of Inl e \<Rightarrow> Inl e | Inr buffer \<Rightarrow> formatOutput buffer format) of
                     Inl e \<Rightarrow>
                       if message_includes_48_bit_limit e then Inl GeneratorTimestampExceedsLimit
                       else Inl (FailedToGenerate e)
                   | Inr v \<Rightarrow> Inr v,
                   this\<lparr>algorithm := g'\<rparr>, clk'))"

text \<open>
  \<open>validate\<close>: \<open>validate_try\<close> is the \<open>try\<close> block, whose \<open>default\<close> case throws; the
  \<open>catch\<close> around it returns \<open>false\<close> for whatever was thrown. The result type has room
  for an error so that a claim that the call fails can be stated.
\<close>

definition validate_try :: "jsvalue \<Rightarrow> string \<Rightarrow> error + bool" where
  "validate_try timestamp format =
     (if format = ''base64url'' then
        (case timestamp of JSString s \<Rightarrow> Inr (isValidTimestampBase64URL s) | _ \<Rightarrow> Inr False)
      else if format = ''hex'' then
        (case timestamp of
           JSString s \<Rightarrow>
             if \<not> (length s = 12 \<and> list_all (\<lambda>c. unhex c \<noteq> None) s) then Inr False
             else Inr True
         | _ \<Rightarrow> Inr False)
      else if format = ''buffer'' then
        (case timestamp of JSBuffer b \<Rightarrow> Inr (validateBuffer b) | _ \<Rightarrow> Inr False)
      else Inl (InvalidFormat format))"

definition validate :: "jsvalue \<Rightarrow> string \<Rightarrow> error + bool" where
  "validate timestamp format =
     (if timestamp = JSNull then Inr False
      else (case validate_try timestamp format of Inl e \<Rightarrow> Inr False | Inr b \<Rightarrow> Inr b))"

text \<open>
  \<open>convert\<close>: after a successful validation the value has the type of its format; the
  other cases of the three inner \<open>case\<close> expressions are never reached.
\<close>

definition convert :: "jsvalue \<Rightarrow> string \<Rightarrow> string \<Rightarrow> error + jsvalue" where
  "convert timestamp fromFormat toFormat =
     (if validate timestamp fromFormat \<noteq> Inr True then Inl (InvalidTimestampForFormat fromFormat)
      else
        (case
           (if fromFormat = ''buffer'' then
              (case timestamp of JSBuffer b \<Rightarrow> Inr b | _ \<Rightarrow> Inl (InvalidTimestampForFormat fromFormat))
            else if fromFormat = ''hex'' then
              (case timestamp of JSString s \<Rightarrow> Inr (from_hex s)
                 | _ \<Rightarrow> Inl (InvalidTimestampForFormat fromFormat))
            else if fromFormat = ''base64url'' then
              (case timestamp of JSString s \<Rightarrow> base64URLToTimestamp s
                 | _ \<Rightarrow> Inl (InvalidTimestampForFormat fromFormat))
            else Inl (UnsupportedSourceFormat fromFormat))
         of Inl e \<Rightarrow> Inl e
          | Inr buffer \<Rightarrow> formatOutput buffer toFormat))"

section \<open>gpt-5.js: the two 128-bit generators\<close>

text \<open>
  Both variants keep the module state \<open>_state\<close>. \<open>seq12\<close> is a JavaScript number that
  holds a small integer; \<open>&\<close>, \<open>|\<close> and \<open>>>\<close> on it are the operations on \<open>int\<close>.
  Randomness and the contents of unwritten memory are inputs of the model:
  \<open>crypto.randomBytes(8)\<close> and \<open>getRandomValues\<close> on eight bytes give the first eight
  values of a byte source, \<open>Buffer.allocUnsafe(16)\<close> the first sixteen values of another,
  \<open>crypto.randomInt(0, 0x1000)\<close> is an integer argument, and the 16-bit value of
  \<open>getRandomValues(new Uint16Array(1))\<close> a word.
\<close>

record v7_state =
  lastMs :: int
  seq12 :: int

definition toBase64Url :: "buffer \<Rightarrow> string" where
  "toBase64Url buf =
     rev (dropWhile (\<lambda>c. c = CHR ''='')
       (rev (replace_all (CHR ''/'') (CHR ''_'')
              (replace_all (CHR ''+'') (CHR ''-'') (base64_encode buf)))))"

subsection \<open>The Node variant\<close>

fun waitNextMs :: "int \<Rightarrow> clock \<Rightarrow> (int \<times> clock) option" where
  "waitNextMs currentMs [] = None"
| "waitNextMs currentMs (t # clk) =
     (if t \<le> currentMs then waitNextMs currentMs clk else Some (t, clk))"

text \<open>
  \<open>source.copy(target, targetStart)\<close> writes as many bytes of the source as fit into the
  target from \<open>targetStart\<close> on. A write to index 0 of an empty buffer or typed array is
  ignored, so the variant bits go into the first byte of the tail when there is one.
\<close>

definition buffer_copy :: "buffer \<Rightarrow> buffer \<Rightarrow> nat \<Rightarrow> buffer" where
  "buffer_copy source target targetStart =
     (let n = min (length source) (length target - targetStart)
      in take targetStart target @ take n source @ drop (targetStart + n) target)"

definition packUuidV7_node :: "(nat \<Rightarrow> byte) \<Rightarrow> int \<Rightarrow> int \<Rightarrow> buffer \<Rightarrow> buffer" where
  "packUuidV7_node unwritten ts48 seq randTail8 =
     (let buf = map unwritten [0..<16];
          buf = buf[0 := of_int (drop_bit 40 ts48 AND 0xff)];
          buf = buf[1 := of_int (drop_bit 32 ts48 AND 0xff)];
          buf = buf[2 := of_int (drop_bit 24 ts48 AND 0xff)];
          buf = buf[3 := of_int (drop_bit 16 ts48 AND 0xff)];
          buf = buf[4 := of_int (drop_bit 8 ts48 AND 0xff)];
          buf = buf[5 := of_int (ts48 AND 0xff)];
          buf = buf[6 := of_int (0x70 OR (drop_bit 8 seq AND 0x0f))];
          buf = buf[7 := of_int (seq AND 0xff)];
          randTail8 = (case randTail8 of [] \<Rightarrow> [] | x # xs \<Rightarrow> ((x AND 0x3f) OR 0x80) # xs)
      in buffer_copy randTail8 buf 8)"

definition generateV7Base64Url_node ::
  "v7_state \<Rightarrow> clock \<Rightarrow> int \<Rightarrow> (nat \<Rightarrow> byte) \<Rightarrow> (nat \<Rightarrow> byte) \<Rightarrow> (string \<times> v7_state \<times> clock) option"
where
  "generateV7Base64Url_node st clk randomInt randomBytes unwritten =
     (case clk of
        [] \<Rightarrow> None
      | ts # clk1 \<Rightarrow>
          (case
             (if ts = lastMs st then
                (let st1 = st\<lparr>seq12 := (seq12 st + 1) AND 0x0fff\<rparr>
                 in if seq12 st1 = 0 then
                      (case waitNextMs ts clk1 of
                         None \<Rightarrow> None
                       | Some (t, clk2) \<Rightarrow> Some (t, st1, clk2))
                    else Some (ts, st1, clk1))
              else Some (ts, st\<lparr>seq12 := randomInt\<rparr>, clk1))
           of None \<Rightarrow> None
            | Some (ts, st2, clk2) \<Rightarrow>
                (let st3 = st2\<lparr>lastMs := ts\<rparr>;
                     tail = map randomBytes [0..<8];
                     bytes = packUuidV7_node unwritten ts (seq12 st3) tail
                 in Some (toBase64Url bytes, st3, clk2))))"

subsection \<open>The web variant\<close>

definition random12 :: "16 word \<Rightarrow> int" where
  "random12 r = uint r AND 0x0fff"

definition randomTail8 :: "(nat \<Rightarrow> byte) \<Rightarrow> buffer" where
  "randomTail8 randomValues = map randomValues [0..<8]"

text \<open>
  \<open>bytes.set(tail, 8)\<close> throws a \<open>RangeError\<close> when the tail does not fit into the sixteen
  bytes; that error is \<open>None\<close> here, and the generator, whose tail has eight bytes, never
  meets it.
\<close>

definition packUuidV7_web :: "int \<Rightarrow> int \<Rightarrow> buffer \<Rightarrow> buffer option" where
  "packUuidV7_web ts48 seq randTail8 =
     (let bytes = replicate 16 (0 :: byte);
          bytes = bytes[0 := of_int (drop_bit 40 ts48 AND 0xff)];
          bytes = bytes[1 := of_int (drop_bit 32 ts48 AND 0xff)];
          bytes = bytes[2 := of_int (drop_bit 24 ts48 AND 0xff)];
          bytes = bytes[3 := of_int (drop_bit 16 ts48 AND 0xff)];
          bytes = bytes[4 := of_int (drop_bit 8 ts48 AND 0xff)];
          bytes = bytes[5 := of_int (ts48 AND 0xff)];
          bytes = bytes[6 := of_int (0x70 OR (drop_bit 8 seq AND 0x0f))];
          bytes = bytes[7 := of_int (seq AND 0xff)];
          tail = randTail8;
          tail = (case tail of [] \<Rightarrow> [] | x # xs \<Rightarrow> ((x AND 0x3f) OR 0x80) # xs)
      in if 8 + length tail > 16 then None
         else Some (take 8 bytes @ tail @ drop (8 + length tail) bytes))"

definition generateV7Base64Url_web ::
  "v7_state \<Rightarrow> clock \<Rightarrow> 16 word \<Rightarrow> (nat \<Rightarrow> byte) \<Rightarrow> (string option \<times> v7_state \<times> clock) option"
where
  "generateV7Base64Url_web st clk randomValue randomValues =
     (case clk of
        [] \<Rightarrow> None
      | now # clk1 \<Rightarrow>
          (let ts = (if now > lastMs st then now else lastMs st);
               (ts, st1) =
                 (if ts = lastMs st then
                    (let st1 = st\<lparr>seq12 := (seq12 st + 1) AND 0x0fff\<rparr>
                     in if seq12 st1 = 0 then (lastMs st1 + 1, st1) else (ts, st1))
                  else (ts, st\<lparr>seq12 := random12 randomValue\<rparr>));
               st2 = st1\<lparr>lastMs := ts\<rparr>;
               tail = randomTail8 randomValues
           in Some (map_option toBase64Url (packUuidV7_web ts (seq12 st2) tail), st2, clk1)))"

section \<open>Concrete inputs for the examples\<close>

definition zero_source :: "nat \<Rightarrow> byte" where
  "zero_source i = 0"

definition example_generator :: UUID48Timestamp where
  "example_generator =
     \<lparr>lastSystemTime = 10, subMillisecondCounter = 3, maxSubMs = 4096,
      waitStrategy = ''increment''\<rparr>"

section \<open>The 48-bit layout\<close>

lemma take_bit_split8:
  "take_bit (n + 8) (x::int) = push_bit n (take_bit 8 (drop_bit n x)) OR take_bit n x"
  by (rule bit_eqI) (auto simp add: bit_simps)

lemma uint_byte_of: "uint (of_int (x AND 0xFF) :: byte) = take_bit 8 x"
proof -
  have "(0xFF::int) = mask 8" by (simp add: mask_eq_exp_minus_1)
  then have "x AND 0xFF = take_bit 8 x" by (simp add: take_bit_eq_mask)
  then show ?thesis by (simp add: uint_word_of_int_eq)
qed

lemma bufferValue_six:
  "bufferValue [a, b, c, d, e, f] =
     push_bit 40 (uint a) OR push_bit 32 (uint b) OR push_bit 24 (uint c) OR
     push_bit 16 (uint d) OR push_bit 8 (uint e) OR uint f"
  by (simp add: bufferValue_def)

lemma take_bit_48_bytes:
  "take_bit 48 (t::int) =
     push_bit 40 (take_bit 8 (drop_bit 40 t)) OR push_bit 32 (take_bit 8 (drop_bit 32 t)) OR
     push_bit 24 (take_bit 8 (drop_bit 24 t)) OR push_bit 16 (take_bit 8 (drop_bit 16 t)) OR
     push_bit 8 (take_bit 8 (drop_bit 8 t)) OR take_bit 8 t"
proof -
  have "take_bit 48 t = push_bit 40 (take_bit 8 (drop_bit 40 t)) OR take_bit 40 t"
    using take_bit_split8 [of 40 t] by simp
  also have "take_bit 40 t = push_bit 32 (take_bit 8 (drop_bit 32 t)) OR take_bit 32 t"
    using take_bit_split8 [of 32 t] by simp
  also have "take_bit 32 t = push_bit 24 (take_bit 8 (drop_bit 24 t)) OR take_bit 24 t"
    using take_bit_split8 [of 24 t] by simp
  also have "take_bit 24 t = push_bit 16 (take_bit 8 (drop_bit 16 t)) OR take_bit 16 t"
    using take_bit_split8 [of 16 t] by simp
  also have "take_bit 16 t = push_bit 8 (take_bit 8 (drop_bit 8 t)) OR take_bit 8 t"
    using take_bit_split8 [of 8 t] by simp
  finally show ?thesis by (simp only: ac_simps)
qed

text \<open>The six bytes hold the low 48 bits of the timestamp, most significant byte first.\<close>

lemma timestampToBuffer_Inr:
  assumes "timestampToBuffer t = Inr b"
  shows "t \<le> 0xFFFFFFFFFFFF \<and> length b = 6 \<and> bufferValue b = take_bit 48 t"
proof -
  from assms have le: "t \<le> 0xFFFFFFFFFFFF"
    by (simp add: timestampToBuffer_def split: if_splits)
  with assms have b: "b = [of_int (drop_bit 40 t AND 0xFF), of_int (drop_bit 32 t AND 0xFF),
      of_int (drop_bit 24 t AND 0xFF), of_int (drop_bit 16 t AND 0xFF),
      of_int (drop_bit 8 t AND 0xFF), of_int (t AND 0xFF)]"
    by (simp add: timestampToBuffer_def)
  have "bufferValue b = take_bit 48 t"
    unfolding b bufferValue_six uint_byte_of take_bit_48_bytes by (simp only: ac_simps)
  with le b show ?thesis by simp
qed

lemma timestampToBuffer_cases:
  "(0xFFFFFFFFFFFF < t \<and> timestampToBuffer t = Inl (Exceeds48BitLimit t)) \<or>
   (t \<le> 0xFFFFFFFFFFFF \<and> (\<exists>b. timestampToBuffer t = Inr b))"
  by (simp add: timestampToBuffer_def)

lemma bufferToTimestamp_timestampToBuffer:
  assumes "timestampToBuffer t = Inr b" and "0 \<le> t"
  shows "bufferToTimestamp b = Inr t"
proof -
  from timestampToBuffer_Inr [OF assms(1)]
  have le: "t \<le> 0xFFFFFFFFFFFF" and len: "length b = 6" and v: "bufferValue b = take_bit 48 t"
    by simp_all
  from le assms(2) have "take_bit 48 t = t"
    by (intro take_bit_int_eq_self) simp_all
  with v le len show ?thesis
    by (simp add: bufferToTimestamp_def validateBuffer_def)
qed

lemma timestampToBuffer_succ_differs: "timestampToBuffer t \<noteq> timestampToBuffer (t + 1)"
proof
  assume eq: "timestampToBuffer t = timestampToBuffer (t + 1)"
  show False
  proof (cases "timestampToBuffer t")
    case (Inl e)
    with eq show False by (auto simp add: timestampToBuffer_def split: if_splits)
  next
    case (Inr b)
    from timestampToBuffer_Inr [OF Inr] timestampToBuffer_Inr [of "t + 1" b] eq Inr
    have "take_bit 48 t = take_bit 48 (t + 1)" by simp
    then have "t mod 2 ^ 48 = (t + 1) mod 2 ^ 48" by (simp add: take_bit_eq_mod)
    then have "(2::int) ^ 48 dvd (t + 1) - t" by (metis mod_eq_dvd_iff)
    then show False by simp
  qed
qed

section \<open>One call of the 48-bit generator\<close>

text \<open>
  Whatever path a call takes, its outcome is \<open>_timestampToBuffer\<close> of the value it leaves
  in \<open>lastSystemTime\<close>, which never decreases; the configuration is not touched.
\<close>

lemma generate_emits:
  "generate g clk = Some (r, g', clk') \<Longrightarrow>
     r = timestampToBuffer (lastSystemTime g') \<and> lastSystemTime g \<le> lastSystemTime g'
     \<and> maxSubMs g' = maxSubMs g \<and> waitStrategy g' = waitStrategy g"
  "handleSameMillisecond g t clk = Some (r, g', clk') \<Longrightarrow> t = lastSystemTime g \<Longrightarrow>
     r = timestampToBuffer (lastSystemTime g') \<and> lastSystemTime g \<le> lastSystemTime g'
     \<and> maxSubMs g' = maxSubMs g \<and> waitStrategy g' = waitStrategy g"
  "waitForNextMillisecond g clk = Some (r, g', clk') \<Longrightarrow>
     r = timestampToBuffer (lastSystemTime g') \<and> lastSystemTime g \<le> lastSystemTime g'
     \<and> maxSubMs g' = maxSubMs g \<and> waitStrategy g' = waitStrategy g"
  by (induction g clk and g t clk and g clk
       rule: generate_handleSameMillisecond_waitForNextMillisecond.induct)
     (auto simp add: Let_def handleNewMillisecond_def handleClockBackward_def split: if_splits)

text \<open>Once the counter has reached the bound, a waiting generator that returns has reset it.\<close>

lemma wait_resets:
  "generate g clk = Some (r, g', clk') \<Longrightarrow> waitStrategy g = ''wait'' \<Longrightarrow>
     maxSubMs g \<le> subMillisecondCounter g \<Longrightarrow> subMillisecondCounter g' = 0"
  "handleSameMillisecond g t clk = Some (r, g', clk') \<Longrightarrow> waitStrategy g = ''wait'' \<Longrightarrow>
     maxSubMs g \<le> subMillisecondCounter g + 1 \<Longrightarrow> subMillisecondCounter g' = 0"
  "waitForNextMillisecond g clk = Some (r, g', clk') \<Longrightarrow> waitStrategy g = ''wait'' \<Longrightarrow>
     maxSubMs g \<le> subMillisecondCounter g \<Longrightarrow> subMillisecondCounter g' = 0"
  by (induction g clk and g t clk and g clk
       rule: generate_handleSameMillisecond_waitForNextMillisecond.induct)
     (auto simp add: Let_def handleNewMillisecond_def handleClockBackward_def split: if_splits)

lemma generate_new:
  "lastSystemTime g < now \<Longrightarrow>
   generate g (now # clk) =
     Some (timestampToBuffer now, g\<lparr>lastSystemTime := now, subMillisecondCounter := 0\<rparr>, clk)"
  by (simp add: handleNewMillisecond_def)

lemma generate_same:
  "subMillisecondCounter g + 1 < maxSubMs g \<Longrightarrow>
   generate g (lastSystemTime g # clk) =
     Some (timestampToBuffer (lastSystemTime g),
           g\<lparr>subMillisecondCounter := subMillisecondCounter g + 1\<rparr>, clk)"
  by (simp add: Let_def)

lemma generate_overflow:
  "maxSubMs g \<le> subMillisecondCounter g + 1 \<Longrightarrow> waitStrategy g \<noteq> ''wait'' \<Longrightarrow>
   generate g (lastSystemTime g # clk) =
     Some (timestampToBuffer (lastSystemTime g + 1),
           g\<lparr>lastSystemTime := lastSystemTime g + 1, subMillisecondCounter := 0\<rparr>, clk)"
  by (simp add: Let_def)

lemma generate_backward:
  "now < lastSystemTime g \<Longrightarrow>
   generate g (now # clk) =
     Some (timestampToBuffer (lastSystemTime g + 1),
           g\<lparr>lastSystemTime := lastSystemTime g + 1, subMillisecondCounter := 0\<rparr>, clk)"
  by (simp add: handleClockBackward_def)

text \<open>With the \<open>increment\<close> strategy a call reads the clock once and returns.\<close>

lemma generate_increment_returns:
  "waitStrategy g \<noteq> ''wait'' \<Longrightarrow> \<exists>r g'. generate g (now # clk) = Some (r, g', clk)"
  by (simp add: Let_def handleNewMillisecond_def handleClockBackward_def)

lemma generate_reading_le:
  assumes "generate g (now # clk) = Some (r, g', clk')"
  shows "now \<le> lastSystemTime g'"
proof (cases "lastSystemTime g < now")
  case True
  with assms generate_new [OF True, of clk] show ?thesis by simp
next
  case False
  with generate_emits(1) [OF assms] show ?thesis by simp
qed

section \<open>Several calls in one millisecond\<close>

lemma generateTimes_same:
  "subMillisecondCounter g + int k < maxSubMs g \<Longrightarrow>
   generateTimes k g (replicate k (lastSystemTime g) @ clk) =
     Some (replicate k (timestampToBuffer (lastSystemTime g)),
           g\<lparr>subMillisecondCounter := subMillisecondCounter g + int k\<rparr>, clk)"
proof (induction k arbitrary: g)
  case 0
  show ?case by simp
next
  case (Suc k)
  let ?g1 = "g\<lparr>subMillisecondCounter := subMillisecondCounter g + 1\<rparr>"
  from Suc.prems
  have step: "generate g (lastSystemTime g # replicate k (lastSystemTime g) @ clk) =
      Some (timestampToBuffer (lastSystemTime g), ?g1, replicate k (lastSystemTime g) @ clk)"
    by (intro generate_same) simp
  from Suc.prems have "subMillisecondCounter ?g1 + int k < maxSubMs ?g1" by simp
  from Suc.IH [OF this] step show ?case by (simp add: add.assoc)
qed

lemma generateTimes_add:
  "generateTimes (m + n) g clk =
     (case generateTimes m g clk of
        None \<Rightarrow> None
      | Some (rs, g', clk') \<Rightarrow>
          (case generateTimes n g' clk' of
             None \<Rightarrow> None
           | Some (rs', g'', clk'') \<Rightarrow> Some (rs @ rs', g'', clk'')))"
  by (induction m arbitrary: g clk) (auto split: option.splits)

text \<open>
  C2. An instance with \<open>maxSubMs = N\<close> (at least 1, as the constructor demands) and the
  \<open>increment\<close> strategy meets a millisecond \<open>t\<close> that is new to it, and the clock reports
  \<open>t\<close> for \<open>N + 1\<close> calls in a row. The first \<open>N\<close> calls return the buffer of \<open>t\<close>; call
  \<open>N + 1\<close> returns the buffer of \<open>t + 1\<close>, which is a different outcome, and leaves
  \<open>lastSystemTime = t + 1\<close> with the counter back at 0.
\<close>

theorem overflow_boundary:
  assumes "waitStrategy g \<noteq> ''wait''" and "maxSubMs g = int N" and "0 < N"
    and "lastSystemTime g < t"
  shows "generateTimes (Suc N) g (replicate (Suc N) t @ clk) =
           Some (replicate N (timestampToBuffer t) @ [timestampToBuffer (t + 1)],
                 g\<lparr>lastSystemTime := t + 1, subMillisecondCounter := 0\<rparr>, clk)
         \<and> timestampToBuffer (t + 1) \<noteq> timestampToBuffer t"
proof -
  from \<open>0 < N\<close> obtain k where N: "N = Suc k" by (cases N) auto
  let ?g1 = "g\<lparr>lastSystemTime := t, subMillisecondCounter := 0\<rparr>"
  let ?g2 = "?g1\<lparr>subMillisecondCounter := subMillisecondCounter ?g1 + int k\<rparr>"
  have first: "generate g (t # replicate k t @ t # clk) =
      Some (timestampToBuffer t, ?g1, replicate k t @ t # clk)"
    using assms(4) by (rule generate_new)
  have "subMillisecondCounter ?g1 + int k < maxSubMs ?g1" using assms(2) N by simp
  from generateTimes_same [OF this, of "t # clk"]
  have middle: "generateTimes k ?g1 (replicate k t @ t # clk) =
      Some (replicate k (timestampToBuffer t), ?g2, t # clk)" by simp
  have "maxSubMs ?g2 \<le> subMillisecondCounter ?g2 + 1" "waitStrategy ?g2 \<noteq> ''wait''"
    using assms(1,2) N by simp_all
  from generate_overflow [OF this, of clk]
  have last: "generate ?g2 (t # clk) =
      Some (timestampToBuffer (t + 1),
            g\<lparr>lastSystemTime := t + 1, subMillisecondCounter := 0\<rparr>, clk)"
    by simp
  have "generateTimes (Suc N) g (replicate (Suc N) t @ clk) =
        generateTimes (Suc k + 1) g (t # replicate k t @ t # clk)"
    by (simp add: N replicate_app_Cons_same)
  also have "\<dots> = Some (replicate N (timestampToBuffer t) @ [timestampToBuffer (t + 1)],
                 g\<lparr>lastSystemTime := t + 1, subMillisecondCounter := 0\<rparr>, clk)"
    unfolding generateTimes_add using first middle last
    by (simp add: N replicate_app_Cons_same)
  finally show ?thesis using timestampToBuffer_succ_differs [of t] by simp
qed

theorem overflow_boundary_witness:
  "new_UUID48Timestamp \<lparr>opt_maxSubMs = Some 3, opt_waitStrategy = Some ''increment''\<rparr> =
     Inr \<lparr>lastSystemTime = 0, subMillisecondCounter = 0, maxSubMs = 3,
          waitStrategy = ''increment''\<rparr> \<and>
   generateTimes 4
     \<lparr>lastSystemTime = 0, subMillisecondCounter = 0, maxSubMs = 3, waitStrategy = ''increment''\<rparr>
     [7, 7, 7, 7] =
     Some ([Inr [0, 0, 0, 0, 0, 7], Inr [0, 0, 0, 0, 0, 7], Inr [0, 0, 0, 0, 0, 7],
            Inr [0, 0, 0, 0, 0, 8]],
           \<lparr>lastSystemTime = 8, subMillisecondCounter = 0, maxSubMs = 3,
            waitStrategy = ''increment''\<rparr>, [])"
proof -
  let ?g = "\<lparr>lastSystemTime = 0, subMillisecondCounter = 0, maxSubMs = 3,
             waitStrategy = ''increment''\<rparr>"
  have h1: "waitStrategy ?g \<noteq> ''wait''" by simp
  have h2: "maxSubMs ?g = int 3" by simp
  have h3: "0 < (3::nat)" by simp
  have h4: "lastSystemTime ?g < 7" by simp
  have c: "new_UUID48Timestamp \<lparr>opt_maxSubMs = Some 3, opt_waitStrategy = Some ''increment''\<rparr>
      = Inr ?g"
    by (simp add: new_UUID48Timestamp_def)
  from overflow_boundary [OF h1 h2 h3 h4, of "[]"] c show ?thesis
    by (simp add: timestampToBuffer_def numeral_eq_Suc)
qed

section \<open>When the counter is reset\<close>

text \<open>
  C7, as the claim states it, fails: the clock reads 5 while \<open>lastSystemTime\<close> is 10, so it
  has not advanced, and the call sets the counter, which was 3, to 0.
\<close>

theorem counter_reset_counterexample:
  "generate
     \<lparr>lastSystemTime = 10, subMillisecondCounter = 3, maxSubMs = 4096,
      waitStrategy = ''increment''\<rparr> [5] =
   Some (Inr [0, 0, 0, 0, 0, 11],
         \<lparr>lastSystemTime = 11, subMillisecondCounter = 0, maxSubMs = 4096,
          waitStrategy = ''increment''\<rparr>, [])"
  by (simp add: handleClockBackward_def timestampToBuffer_def)

text \<open>
  C7, amended. After a call of \<open>generate\<close> that returns or throws, on an instance whose
  counter is not negative, the counter is 0 exactly when the clock reading differs from
  \<open>lastSystemTime\<close> (it advanced or it moved backward) or the incremented counter reached
  \<open>maxSubMs\<close>; in the one remaining case, the same millisecond below the bound, the counter
  is the old one plus 1 and is not 0. This holds for both strategies.
\<close>

theorem counter_reset_amended:
  assumes "generate g (now # clk) = Some (r, g', clk')" and "0 \<le> subMillisecondCounter g"
  shows "(subMillisecondCounter g' = 0 \<longleftrightarrow>
            now \<noteq> lastSystemTime g \<or> maxSubMs g \<le> subMillisecondCounter g + 1) \<and>
         (subMillisecondCounter g' \<noteq> 0 \<longrightarrow>
            subMillisecondCounter g' = subMillisecondCounter g + 1)"
proof (cases "now = lastSystemTime g \<and> maxSubMs g \<le> subMillisecondCounter g + 1
               \<and> waitStrategy g = ''wait''")
  case True
  with assms have "handleSameMillisecond g now clk = Some (r, g', clk')" by simp
  from wait_resets(2) [OF this] True have "subMillisecondCounter g' = 0" by simp
  with True show ?thesis by simp
next
  case False
  with assms show ?thesis
    by (auto simp add: Let_def handleNewMillisecond_def handleClockBackward_def
        split: if_splits)
qed

theorem counter_reset_amended_witness:
  "generate example_generator [10] =
     Some (Inr [0, 0, 0, 0, 0, 10], example_generator\<lparr>subMillisecondCounter := 4\<rparr>, []) \<and>
   0 \<le> subMillisecondCounter example_generator \<and>
   subMillisecondCounter (example_generator\<lparr>subMillisecondCounter := 4\<rparr>) =
     subMillisecondCounter example_generator + 1 \<and>
   generate (example_generator\<lparr>waitStrategy := ''wait'', maxSubMs := 4\<rparr>) [10, 10, 12, 9] =
     Some (Inr [0, 0, 0, 0, 0, 11],
           example_generator\<lparr>waitStrategy := ''wait'', maxSubMs := 4, lastSystemTime := 11,
             subMillisecondCounter := 0\<rparr>, [])"
proof -
  have h1: "generate example_generator [10] =
     Some (Inr [0, 0, 0, 0, 0, 10], example_generator\<lparr>subMillisecondCounter := 4\<rparr>, [])"
    by (simp add: example_generator_def Let_def timestampToBuffer_def)
  have h2: "0 \<le> subMillisecondCounter example_generator"
    by (simp add: example_generator_def)
  have h3: "generate (example_generator\<lparr>waitStrategy := ''wait'', maxSubMs := 4\<rparr>)
       [10, 10, 12, 9] =
     Some (Inr [0, 0, 0, 0, 0, 11],
           example_generator\<lparr>waitStrategy := ''wait'', maxSubMs := 4, lastSystemTime := 11,
             subMillisecondCounter := 0\<rparr>, [])"
    by (simp add: example_generator_def Let_def timestampToBuffer_def handleClockBackward_def)
  from counter_reset_amended [OF h1 h2] h1 h2 h3 show ?thesis
    by (simp add: example_generator_def)
qed

section \<open>The counter is not part of the output\<close>

text \<open>
  C10. Two calls of \<open>generate\<close> in a row on one instance, the clock reporting the
  millisecond \<open>t\<close> to both. The first call leaves \<open>lastSystemTime = t\<close>, so the second one
  takes the same-millisecond path, and there the incremented counter stays below
  \<open>maxSubMs\<close>. Then the second call has the outcome of the first, a buffer of six bytes
  equal byte for byte, and changes nothing but the counter.
\<close>

theorem same_millisecond_same_buffer:
  assumes "generate g (t # clk) = Some (r1, g1, clk1)"
    and "lastSystemTime g1 = t"
    and "subMillisecondCounter g1 + 1 < maxSubMs g1"
  shows "generate g1 (t # clk2) =
           Some (r1, g1\<lparr>subMillisecondCounter := subMillisecondCounter g1 + 1\<rparr>, clk2) \<and>
         (\<forall>b. r1 = Inr b \<longrightarrow> length b = 6)"
proof -
  from generate_emits(1) [OF assms(1)] assms(2) have r1: "r1 = timestampToBuffer t" by simp
  from generate_same [OF assms(3), of clk2] assms(2) r1
  have "generate g1 (t # clk2) =
      Some (r1, g1\<lparr>subMillisecondCounter := subMillisecondCounter g1 + 1\<rparr>, clk2)" by simp
  moreover have "\<forall>b. r1 = Inr b \<longrightarrow> length b = 6"
    using r1 timestampToBuffer_Inr by auto
  ultimately show ?thesis by simp
qed

theorem same_millisecond_same_buffer_witness:
  "generate example_generator [1000, 1000] =
     Some (Inr [0, 0, 0, 0, 3, 232],
           example_generator\<lparr>lastSystemTime := 1000, subMillisecondCounter := 0\<rparr>, [1000]) \<and>
   generate (example_generator\<lparr>lastSystemTime := 1000, subMillisecondCounter := 0\<rparr>) [1000] =
     Some (Inr [0, 0, 0, 0, 3, 232],
           example_generator\<lparr>lastSystemTime := 1000, subMillisecondCounter := 1\<rparr>, [])"
proof -
  let ?g1 = "example_generator\<lparr>lastSystemTime := 1000, subMillisecondCounter := 0\<rparr>"
  have h1: "generate example_generator [1000, 1000] =
      Some (Inr [0, 0, 0, 0, 3, 232], ?g1, [1000])"
    by (simp add: example_generator_def handleNewMillisecond_def timestampToBuffer_def)
  have h2: "lastSystemTime ?g1 = 1000" by simp
  have h3: "subMillisecondCounter ?g1 + 1 < maxSubMs ?g1"
    by (simp add: example_generator_def)
  from same_millisecond_same_buffer [OF h1 h2 h3, of "[]"] h1 show ?thesis by simp
qed

section \<open>Base64: characters and six-bit groups\<close>

lemma index_of_nth:
  "distinct xs \<Longrightarrow> n < length xs \<Longrightarrow> index_of (xs ! n) xs = Some n"
proof (induction xs arbitrary: n)
  case Nil
  then show ?case by simp
next
  case (Cons x xs)
  show ?case
  proof (cases n)
    case 0
    then show ?thesis by simp
  next
    case (Suc m)
    with Cons.prems have "xs ! m \<in> set xs" "x \<notin> set xs" by simp_all
    then have "xs ! m \<noteq> x" by auto
    with Cons.IH [of m] Cons.prems Suc show ?thesis by simp
  qed
qed

lemma index_of_Some: "index_of x xs = Some n \<Longrightarrow> n < length xs \<and> xs ! n = x"
  by (induction xs arbitrary: n) (auto split: if_splits)

lemma base64_alphabet_distinct: "distinct base64_alphabet \<and> length base64_alphabet = 64"
  by code_simp

lemma replace_all_url:
  "replace_all (CHR ''/'') (CHR ''_'') (replace_all (CHR ''+'') (CHR ''-'') s) = map url_char s"
  by (simp add: replace_all_def url_char_def)

lemma base64_alphabet_chars:
  "list_all (\<lambda>c. c \<noteq> CHR ''='' \<and> url_char c \<noteq> CHR ''='' \<and>
       url_char c \<in> set base64url_alphabet \<and>
       unbase64 c = index_of c base64_alphabet \<and>
       unbase64 (url_char c) = index_of c base64_alphabet) base64_alphabet"
  by code_simp

lemma base64url_alphabet_chars:
  "list_all (\<lambda>c. c \<noteq> CHR ''='' \<and> std_char c \<noteq> CHR ''='' \<and>
       (case unbase64 (std_char c) of
          None \<Rightarrow> False
        | Some n \<Rightarrow> n < 64 \<and> url_char (base64_char n) = c))
     base64url_alphabet"
  by code_simp

lemma replace_all_std:
  "replace_all (CHR ''_'') (CHR ''/'') (replace_all (CHR ''-'') (CHR ''+'') s) = map std_char s"
  by (simp add: replace_all_def std_char_def)

lemma base64_char_props:
  assumes "n < 64"
  shows "unbase64 (url_char (base64_char n)) = Some n"
    and "unbase64 (base64_char n) = Some n"
    and "url_char (base64_char n) \<noteq> CHR ''=''"
    and "base64_char n \<noteq> CHR ''=''"
    and "url_char (base64_char n) \<in> set base64url_alphabet"
proof -
  from assms have mem: "base64_char n \<in> set base64_alphabet"
    by (simp add: base64_char_def base64_alphabet_distinct)
  from assms have "index_of (base64_char n) base64_alphabet = Some n"
    unfolding base64_char_def by (intro index_of_nth) (simp_all add: base64_alphabet_distinct)
  with mem base64_alphabet_chars
  show "unbase64 (url_char (base64_char n)) = Some n"
    and "unbase64 (base64_char n) = Some n"
    and "url_char (base64_char n) \<noteq> CHR ''=''"
    and "base64_char n \<noteq> CHR ''=''"
    and "url_char (base64_char n) \<in> set base64url_alphabet"
    by (auto simp add: list_all_iff)
qed

lemma unat_byte_lt: "unat (a :: byte) < 256"
  using unsigned_less [of a, where ?'a = nat] by simp

lemma sextet_arith:
  fixes x y z :: nat
  assumes "x < 256" and "y < 256" and "z < 256"
  shows "x div 4 < 64" and "(x mod 4) * 16 + y div 16 < 64" and "(x mod 4) * 16 < 64"
    and "(y mod 16) * 4 + z div 64 < 64" and "(y mod 16) * 4 < 64" and "z mod 64 < 64"
  using assms by (simp_all add: less_mult_imp_div_less)

lemma byte_arith:
  fixes x y z :: nat
  assumes "y < 256" and "z < 256"
  shows "x div 4 * 4 + ((x mod 4) * 16 + y div 16) div 16 = x"
    and "x div 4 * 4 + ((x mod 4) * 16) div 16 = x"
    and "(((x mod 4) * 16 + y div 16) mod 16) * 16 + ((y mod 16) * 4 + z div 64) div 4 = y"
    and "(((x mod 4) * 16 + y div 16) mod 16) * 16 + ((y mod 16) * 4) div 4 = y"
    and "(((y mod 16) * 4 + z div 64) mod 4) * 64 + z mod 64 = z"
proof -
  have y16: "y div 16 < 16" and z64: "z div 64 < 4"
    using assms by (simp_all add: less_mult_imp_div_less)
  have y256: "y div 16 div 16 = 0" and z256: "z div 64 div 4 = 0"
    using assms by (simp_all add: div_mult2_eq [symmetric])
  have "((x mod 4) * 16 + y div 16) div 16 = x mod 4 + y div 16 div 16" by simp
  with y256 show "x div 4 * 4 + ((x mod 4) * 16 + y div 16) div 16 = x" by simp
  show "x div 4 * 4 + ((x mod 4) * 16) div 16 = x" by simp
  from y16 have a: "((x mod 4) * 16 + y div 16) mod 16 = y div 16" by simp
  have "((y mod 16) * 4 + z div 64) div 4 = y mod 16 + z div 64 div 4" by simp
  with z256 a
  show "(((x mod 4) * 16 + y div 16) mod 16) * 16 + ((y mod 16) * 4 + z div 64) div 4 = y"
    by simp
  from a show "(((x mod 4) * 16 + y div 16) mod 16) * 16 + ((y mod 16) * 4) div 4 = y" by simp
  from z64 have "((y mod 16) * 4 + z div 64) mod 4 = z div 64" by simp
  then show "(((y mod 16) * 4 + z div 64) mod 4) * 64 + z mod 64 = z" by simp
qed

lemma sextets_lt: "\<forall>s \<in> set (sextets b). s < 64"
proof (induction b rule: sextets.induct)
  case (1 a b c rest)
  with sextet_arith [OF unat_byte_lt [of a] unat_byte_lt [of b] unat_byte_lt [of c]]
  show ?case by simp
next
  case (2 a b)
  with sextet_arith [OF unat_byte_lt [of a] unat_byte_lt [of b] unat_byte_lt [of b]]
  show ?case by simp
next
  case (3 a)
  with sextet_arith [OF unat_byte_lt [of a] unat_byte_lt [of a] unat_byte_lt [of a]]
  show ?case by simp
next
  case 4
  show ?case by simp
qed

lemma length_sextets: "length (sextets b) = (length b * 4 + 2) div 3"
  by (induction b rule: sextets.induct) simp_all

text \<open>Decoding the six-bit groups of a buffer gives the buffer back, whatever its length.\<close>

lemma byte_of_sextets:
  fixes a b c :: byte
  shows "of_nat (unat a div 4 * 4 + ((unat a mod 4) * 16 + unat b div 16) div 16) = a"
    and "of_nat (unat a div 4 * 4 + ((unat a mod 4) * 16) div 16) = a"
    and "of_nat ((((unat a mod 4) * 16 + unat b div 16) mod 16) * 16 +
           ((unat b mod 16) * 4 + unat c div 64) div 4) = b"
    and "of_nat ((((unat a mod 4) * 16 + unat b div 16) mod 16) * 16 +
           ((unat b mod 16) * 4) div 4) = b"
    and "of_nat ((((unat b mod 16) * 4 + unat c div 64) mod 4) * 64 + unat c mod 64) = c"
proof -
  note ar = byte_arith [OF unat_byte_lt [of b] unat_byte_lt [of c]]
  have inv: "of_nat (unat w) = w" for w :: byte by simp
  show "of_nat (unat a div 4 * 4 + ((unat a mod 4) * 16 + unat b div 16) div 16) = a"
    by (simp only: ar(1) inv)
  show "of_nat (unat a div 4 * 4 + ((unat a mod 4) * 16) div 16) = a"
    by (simp only: ar(2) inv)
  show "of_nat ((((unat a mod 4) * 16 + unat b div 16) mod 16) * 16 +
           ((unat b mod 16) * 4 + unat c div 64) div 4) = b"
    by (simp only: ar(3) inv)
  show "of_nat ((((unat a mod 4) * 16 + unat b div 16) mod 16) * 16 +
           ((unat b mod 16) * 4) div 4) = b"
    by (simp only: ar(4) inv)
  show "of_nat ((((unat b mod 16) * 4 + unat c div 64) mod 4) * 64 + unat c mod 64) = c"
    by (simp only: ar(5) inv)
qed

lemma unsextets_sextets: "unsextets (sextets b) = b"
proof (induction b rule: sextets.induct)
  case (1 a b c rest)
  then show ?case
    by (simp only: sextets.simps append_Cons append_Nil unsextets.simps byte_of_sextets)
next
  case (2 a b)
  show ?case by (simp only: sextets.simps unsextets.simps byte_of_sextets)
next
  case (3 a)
  show ?case by (simp only: sextets.simps unsextets.simps byte_of_sextets)
next
  case 4
  show ?case by simp
qed

lemma map_filter_unbase64_url:
  "\<forall>s \<in> set ss. s < 64 \<Longrightarrow>
     List.map_filter unbase64 (map (\<lambda>n. url_char (base64_char n)) ss) = ss"
  by (induction ss) (simp_all add: List.map_filter_simps base64_char_props)

lemma map_filter_unbase64:
  "\<forall>s \<in> set ss. s < 64 \<Longrightarrow> List.map_filter unbase64 (map base64_char ss) = ss"
  by (induction ss) (simp_all add: List.map_filter_simps base64_char_props)

lemma filter_padding:
  assumes "\<forall>s \<in> set ss. s < 64"
  shows "filter (\<lambda>c. c \<noteq> CHR ''='') (map url_char (map base64_char ss @ replicate k (CHR ''=''))) =
         map (\<lambda>n. url_char (base64_char n)) ss"
proof -
  have "filter (\<lambda>c. c \<noteq> CHR ''='') (map (\<lambda>n. url_char (base64_char n)) ss) =
        map (\<lambda>n. url_char (base64_char n)) ss"
    using assms by (simp add: filter_id_conv base64_char_props)
  moreover have "url_char (CHR ''='') = CHR ''=''" by (simp add: url_char_def)
  ultimately show ?thesis by (simp add: o_def)
qed

lemma strip_padding:
  assumes "\<forall>s \<in> set ss. s < 64"
  shows "rev (dropWhile (\<lambda>c. c = CHR ''='')
           (rev (map url_char (map base64_char ss @ replicate k (CHR ''=''))))) =
         map (\<lambda>n. url_char (base64_char n)) ss"
proof -
  have eq: "url_char (CHR ''='') = CHR ''=''" by (simp add: url_char_def)
  have "dropWhile (\<lambda>c. c = CHR ''='') (rev (map (\<lambda>n. url_char (base64_char n)) ss)) =
        rev (map (\<lambda>n. url_char (base64_char n)) ss)"
  proof (cases ss rule: rev_cases)
    case Nil
    then show ?thesis by simp
  next
    case (snoc ys y)
    with assms have "y < 64" by simp
    then show ?thesis using snoc by (simp add: base64_char_props)
  qed
  moreover have "dropWhile (\<lambda>c. c = CHR ''='') (replicate k (CHR ''='') @ xs) =
      dropWhile (\<lambda>c. c = CHR ''='') xs" for xs
    by (induction k) simp_all
  ultimately show ?thesis by (simp add: o_def eq)
qed

lemma takeWhile_padding:
  "\<forall>c \<in> set xs. c \<noteq> p \<Longrightarrow> takeWhile (\<lambda>c. c \<noteq> p) (xs @ replicate k p) = xs"
proof (induction xs)
  case Nil
  show ?case by (cases k) simp_all
next
  case (Cons x xs)
  then show ?case by simp
qed

lemma encodeBase64URL_chars:
  "encodeBase64URL b = map (\<lambda>n. url_char (base64_char n)) (sextets b)"
proof (cases "b = []")
  case True
  then show ?thesis by (simp add: encodeBase64URL_def)
next
  case False
  with filter_padding [OF sextets_lt] show ?thesis
    by (simp add: encodeBase64URL_def replace_all_url base64_encode_def)
qed

lemma toBase64Url_chars:
  "toBase64Url b = map (\<lambda>n. url_char (base64_char n)) (sextets b)"
  using strip_padding [OF sextets_lt]
  by (simp add: toBase64Url_def replace_all_url base64_encode_def)

text \<open>The platform's decoder reads a URL-safe text without padding as it is.\<close>

lemma base64_decode_toBase64Url: "base64_decode (toBase64Url b) = b"
proof -
  have "takeWhile (\<lambda>c. c \<noteq> CHR ''='') (map (\<lambda>n. url_char (base64_char n)) (sextets b)) =
        map (\<lambda>n. url_char (base64_char n)) (sextets b)"
    using sextets_lt [of b] by (simp add: takeWhile_eq_all_conv base64_char_props)
  then have "base64_decode (toBase64Url b) = unsextets (sextets b)"
    unfolding base64_decode_def toBase64Url_chars
    by (simp only: map_filter_unbase64_url [OF sextets_lt])
  then show ?thesis by (simp only: unsextets_sextets)
qed

section \<open>base64url.js: the round trips\<close>

lemma decodeBase64URL_encodeBase64URL: "decodeBase64URL (encodeBase64URL b) = Inr b"
proof (cases "b = []")
  case True
  then show ?thesis by (simp add: encodeBase64URL_def decodeBase64URL_def)
next
  case False
  let ?t = "map (\<lambda>n. url_char (base64_char n)) (sextets b)"
  let ?s = "map base64_char (sextets b)"
  from False have ne: "?t \<noteq> []" by (cases b rule: sextets.cases) simp_all
  have valid: "list_all (\<lambda>c. c \<in> set base64url_alphabet) ?t"
    using sextets_lt [of b] by (simp add: list_all_iff base64_char_props)
  have "std_char (url_char (base64_char n)) = base64_char n" if "n < 64" for n
  proof -
    from that have "base64_char n \<in> set base64_alphabet"
      by (simp add: base64_char_def base64_alphabet_distinct)
    moreover have "list_all (\<lambda>c. std_char (url_char c) = c) base64_alphabet" by code_simp
    ultimately show ?thesis by (simp add: list_all_iff)
  qed
  then have std: "map std_char ?t = ?s" using sextets_lt [of b] by simp
  have "takeWhile (\<lambda>c. c \<noteq> CHR ''='') (?s @ replicate k (CHR ''='')) = ?s" for k
    using sextets_lt [of b] by (intro takeWhile_padding) (simp add: base64_char_props)
  moreover have "map std_char (?t @ replicate k (CHR ''='')) = ?s @ replicate k (CHR ''='')" for k
    using std by (simp add: std_char_def [of "CHR ''=''"])
  ultimately have "base64_decode (map std_char (?t @ replicate k (CHR ''=''))) = b" for k
    unfolding base64_decode_def
    by (simp only: map_filter_unbase64 [OF sextets_lt] unsextets_sextets)
  with ne valid show ?thesis
    by (simp add: decodeBase64URL_def encodeBase64URL_chars replace_all_std Let_def)
qed

lemma group_arith:
  fixes a b c d :: nat
  assumes "a < 64" and "b < 64" and "c < 64" and "d < 64"
  shows "(a * 4 + b div 16) mod 256 = a * 4 + b div 16"
    and "((b mod 16) * 16 + c div 4) mod 256 = (b mod 16) * 16 + c div 4"
    and "((c mod 4) * 64 + d) mod 256 = (c mod 4) * 64 + d"
    and "(a * 4 + b div 16) div 4 = a"
    and "((a * 4 + b div 16) mod 4) * 16 + ((b mod 16) * 16 + c div 4) div 16 = b"
    and "(((b mod 16) * 16 + c div 4) mod 16) * 4 + ((c mod 4) * 64 + d) div 64 = c"
    and "((c mod 4) * 64 + d) mod 64 = d"
proof -
  have b16: "b div 16 < 4" and c4: "c div 4 < 16"
    using assms by (simp_all add: less_mult_imp_div_less)
  have b64: "b div 16 div 4 = 0" and c64: "c div 4 div 16 = 0" and d64: "d div 64 = 0"
    using assms by (simp_all add: div_mult2_eq [symmetric])
  have bm: "b mod 16 < 16" and cm: "c mod 4 < 4" by simp_all
  from assms(1) b16 have "a * 4 + b div 16 < 256" by simp
  then show "(a * 4 + b div 16) mod 256 = a * 4 + b div 16" by simp
  from bm c4 have "(b mod 16) * 16 + c div 4 < 256" by simp
  then show "((b mod 16) * 16 + c div 4) mod 256 = (b mod 16) * 16 + c div 4" by simp
  from cm assms(4) have "(c mod 4) * 64 + d < 256" by simp
  then show "((c mod 4) * 64 + d) mod 256 = (c mod 4) * 64 + d" by simp
  have "(a * 4 + b div 16) div 4 = a + b div 16 div 4" by simp
  with b64 show "(a * 4 + b div 16) div 4 = a" by simp
  from b16 have x: "(a * 4 + b div 16) mod 4 = b div 16" by simp
  have "((b mod 16) * 16 + c div 4) div 16 = b mod 16 + c div 4 div 16" by simp
  with c64 x
  show "((a * 4 + b div 16) mod 4) * 16 + ((b mod 16) * 16 + c div 4) div 16 = b" by simp
  from c4 have y: "((b mod 16) * 16 + c div 4) mod 16 = c div 4" by simp
  have "((c mod 4) * 64 + d) div 64 = c mod 4 + d div 64" by simp
  with d64 y
  show "(((b mod 16) * 16 + c div 4) mod 16) * 4 + ((c mod 4) * 64 + d) div 64 = c" by simp
  from assms(4) show "((c mod 4) * 64 + d) mod 64 = d" by simp
qed

lemma sextets_of_bytes:
  fixes a b c d :: nat
  assumes "a < 64" and "b < 64" and "c < 64" and "d < 64"
  shows "sextets ((of_nat (a * 4 + b div 16) :: byte) # of_nat ((b mod 16) * 16 + c div 4) #
            of_nat ((c mod 4) * 64 + d) # rest) = [a, b, c, d] @ sextets rest"
proof -
  note ar = group_arith [OF assms]
  have p: "(2::nat) ^ LENGTH(8) = 256" by simp
  have u1: "unat (of_nat (a * 4 + b div 16) :: byte) = a * 4 + b div 16"
    and u2: "unat (of_nat ((b mod 16) * 16 + c div 4) :: byte) = (b mod 16) * 16 + c div 4"
    and u3: "unat (of_nat ((c mod 4) * 64 + d) :: byte) = (c mod 4) * 64 + d"
    by (simp_all only: unat_of_nat p ar(1,2,3))
  show ?thesis
    by (simp only: sextets.simps u1 u2 u3 ar(4,5,6,7))
qed

text \<open>Full groups of four six-bit values are read back from the bytes they give.\<close>

lemma sextets_unsextets:
  "length ss mod 4 = 0 \<Longrightarrow> \<forall>s \<in> set ss. s < 64 \<Longrightarrow>
     sextets (unsextets ss) = ss \<and> length (unsextets ss) = length ss div 4 * 3"
proof (induction ss rule: unsextets.induct)
  case (1 a b c d rest)
  then have "length rest mod 4 = 0" and "\<forall>s \<in> set rest. s < 64"
    and lt: "a < 64" "b < 64" "c < 64" "d < 64"
    by simp_all
  with "1.IH" have ih: "sextets (unsextets rest) = rest"
    and len: "length (unsextets rest) = length rest div 4 * 3" by simp_all
  have "sextets (unsextets (a # b # c # d # rest)) = [a, b, c, d] @ sextets (unsextets rest)"
    by (simp only: unsextets.simps append_Cons append_Nil sextets_of_bytes [OF lt])
  with ih have one: "sextets (unsextets (a # b # c # d # rest)) = a # b # c # d # rest"
    by simp
  have "length (unsextets (a # b # c # d # rest)) = 3 + length (unsextets rest)"
    by (simp only: unsextets.simps length_append list.size)
  moreover have "length (a # b # c # d # rest) div 4 * 3 = 3 + length rest div 4 * 3"
  proof -
    have "(4 + length rest) div 4 = length rest div 4 + 1" by (rule div_add_self1) simp
    then show ?thesis by simp
  qed
  ultimately have two: "length (unsextets (a # b # c # d # rest)) =
      length (a # b # c # d # rest) div 4 * 3"
    using len by (simp only:)
  from one two show ?case by (rule conjI)
qed simp_all

lemma base64url_char_props:
  assumes "c \<in> set base64url_alphabet"
  shows "c \<noteq> CHR ''=''" and "std_char c \<noteq> CHR ''=''"
    and "\<exists>n < 64. unbase64 (std_char c) = Some n \<and> url_char (base64_char n) = c"
  using assms base64url_alphabet_chars
  by (auto simp add: list_all_iff split: option.splits)

lemma decode_str:
  assumes "\<forall>c \<in> set str. c \<in> set base64url_alphabet"
  shows "\<exists>ss. List.map_filter unbase64 (map std_char str) = ss \<and> length ss = length str \<and>
           (\<forall>s \<in> set ss. s < 64) \<and> map (\<lambda>n. url_char (base64_char n)) ss = str"
  using assms
proof (induction str)
  case Nil
  show ?case by (simp add: List.map_filter_simps)
next
  case (Cons c str)
  then obtain n where n: "n < 64" "unbase64 (std_char c) = Some n"
    "url_char (base64_char n) = c"
    using base64url_char_props(3) [of c] by auto
  with Cons show ?case by (simp add: List.map_filter_simps)
qed

lemma encodeBase64URL_decodeBase64URL:
  assumes "list_all (\<lambda>c. c \<in> set base64url_alphabet) str" and "length str mod 4 = 0"
  shows "\<exists>b. decodeBase64URL str = Inr b \<and> encodeBase64URL b = str \<and>
           length b = length str div 4 * 3"
proof (cases "str = []")
  case True
  then show ?thesis by (simp add: decodeBase64URL_def encodeBase64URL_def)
next
  case False
  from assms(1) have mem: "\<forall>c \<in> set str. c \<in> set base64url_alphabet"
    by (simp add: list_all_iff)
  from decode_str [OF mem] obtain ss where
    ss: "List.map_filter unbase64 (map std_char str) = ss" "length ss = length str"
      "\<forall>s \<in> set ss. s < 64" "map (\<lambda>n. url_char (base64_char n)) ss = str"
    by blast
  from mem have "\<forall>c \<in> set (map std_char str). c \<noteq> CHR ''=''"
    by (simp add: base64url_char_props)
  from takeWhile_padding [OF this, of 0]
  have tw: "takeWhile (\<lambda>c. c \<noteq> CHR ''='') (map std_char str) = map std_char str"
    by simp
  have dec: "base64_decode (map std_char str) = unsextets ss"
    unfolding base64_decode_def by (simp only: tw ss(1))
  from assms(2) False have "decodeBase64URL str = Inr (base64_decode (map std_char str))"
    using assms(1) by (simp add: decodeBase64URL_def replace_all_std)
  with dec have d: "decodeBase64URL str = Inr (unsextets ss)" by (simp only:)
  from sextets_unsextets [OF _ ss(3)] assms(2) ss(2)
  have "sextets (unsextets ss) = ss" "length (unsextets ss) = length str div 4 * 3"
    by simp_all
  with d ss(4) show ?thesis by (simp add: encodeBase64URL_chars)
qed

lemma isValidBase64URL_iff:
  "isValidBase64URL str \<longleftrightarrow> list_all (\<lambda>c. c \<in> set base64url_alphabet) str"
proof (cases "str = []")
  case True
  then show ?thesis by (simp add: isValidBase64URL_def)
next
  case False
  have "CHR ''='' \<notin> set str" if "list_all (\<lambda>c. c \<in> set base64url_alphabet) str"
    using that base64url_char_props(1) by (auto simp add: list_all_iff)
  with False show ?thesis
    by (auto simp add: isValidBase64URL_def decodeBase64URL_def Let_def)
qed

section \<open>The 128-bit layout\<close>

lemma version_nibble: "drop_bit 4 (of_int (0x70 OR (x AND 0x0f)) :: byte) = 7"
  by (simp add: of_int_or_eq of_int_and_eq)

lemma variant_bits: "drop_bit 6 ((x AND 0x3f) OR 0x80 :: byte) = 2"
  by simp

lemma take_6:
  assumes "6 \<le> length b"
  shows "take 6 b = [b ! 0, b ! 1, b ! 2, b ! 3, b ! 4, b ! 5]"
proof (rule nth_equalityI)
  show "length (take 6 b) = length [b ! 0, b ! 1, b ! 2, b ! 3, b ! 4, b ! 5]"
    using assms by simp
next
  fix i
  assume "i < length (take 6 b)"
  then have "i < 6" by simp
  then consider "i = 0" | "i = 1" | "i = 2" | "i = 3" | "i = 4" | "i = 5" by linarith
  then show "take 6 b ! i = [b ! 0, b ! 1, b ! 2, b ! 3, b ! 4, b ! 5] ! i"
    by cases simp_all
qed

lemma packUuidV7_node_bits:
  assumes "length tail = 8"
  shows "length (packUuidV7_node uw ts seq tail) = 16"
    and "drop_bit 4 (packUuidV7_node uw ts seq tail ! 6) = 7"
    and "drop_bit 6 (packUuidV7_node uw ts seq tail ! 8) = 2"
    and "ts \<le> 0xFFFFFFFFFFFF \<longrightarrow>
           Inr (take 6 (packUuidV7_node uw ts seq tail)) = timestampToBuffer ts"
proof -
  from assms obtain x xs where t: "tail = x # xs" and xs: "length xs = 7"
    by (cases tail) auto
  show len: "length (packUuidV7_node uw ts seq tail) = 16"
    by (simp add: packUuidV7_node_def buffer_copy_def t xs)
  show "drop_bit 4 (packUuidV7_node uw ts seq tail ! 6) = 7"
    by (simp add: packUuidV7_node_def buffer_copy_def t xs nth_append of_int_or_eq
        of_int_and_eq)
  show "drop_bit 6 (packUuidV7_node uw ts seq tail ! 8) = 2"
    by (simp add: packUuidV7_node_def buffer_copy_def t xs nth_append)
  have "packUuidV7_node uw ts seq tail ! 0 = of_int (drop_bit 40 ts AND 0xff)"
    "packUuidV7_node uw ts seq tail ! 1 = of_int (drop_bit 32 ts AND 0xff)"
    "packUuidV7_node uw ts seq tail ! 2 = of_int (drop_bit 24 ts AND 0xff)"
    "packUuidV7_node uw ts seq tail ! 3 = of_int (drop_bit 16 ts AND 0xff)"
    "packUuidV7_node uw ts seq tail ! 4 = of_int (drop_bit 8 ts AND 0xff)"
    "packUuidV7_node uw ts seq tail ! 5 = of_int (ts AND 0xff)"
    by (simp_all add: packUuidV7_node_def buffer_copy_def t xs nth_append)
  with take_6 [of "packUuidV7_node uw ts seq tail"] len
  show "ts \<le> 0xFFFFFFFFFFFF \<longrightarrow>
           Inr (take 6 (packUuidV7_node uw ts seq tail)) = timestampToBuffer ts"
    by (simp add: timestampToBuffer_def)
qed

lemma packUuidV7_web_bits:
  assumes "length tail = 8"
  shows "\<exists>b. packUuidV7_web ts seq tail = Some b \<and> length b = 16 \<and>
           drop_bit 4 (b ! 6) = 7 \<and> drop_bit 6 (b ! 8) = 2 \<and>
           (ts \<le> 0xFFFFFFFFFFFF \<longrightarrow> Inr (take 6 b) = timestampToBuffer ts)"
proof -
  from assms obtain x xs where t: "tail = x # xs" and xs: "length xs = 7"
    by (cases tail) auto
  obtain b where b: "packUuidV7_web ts seq tail = Some b" and len: "length b = 16"
    by (simp add: packUuidV7_web_def t xs)
  from b have "drop_bit 4 (b ! 6) = 7" "drop_bit 6 (b ! 8) = 2"
    by (auto simp add: packUuidV7_web_def t xs nth_append of_int_or_eq of_int_and_eq)
  moreover from b have "b ! 0 = of_int (drop_bit 40 ts AND 0xff)"
    "b ! 1 = of_int (drop_bit 32 ts AND 0xff)"
    "b ! 2 = of_int (drop_bit 24 ts AND 0xff)"
    "b ! 3 = of_int (drop_bit 16 ts AND 0xff)"
    "b ! 4 = of_int (drop_bit 8 ts AND 0xff)"
    "b ! 5 = of_int (ts AND 0xff)"
    by (auto simp add: packUuidV7_web_def t xs nth_append)
  with take_6 [of b] len
  have "ts \<le> 0xFFFFFFFFFFFF \<longrightarrow> Inr (take 6 b) = timestampToBuffer ts"
    by (simp add: timestampToBuffer_def)
  ultimately show ?thesis using b len by simp
qed

section \<open>One call of a 128-bit generator\<close>

lemma and_0fff: "(x::int) AND 0x0fff = x mod 4096"
proof -
  have "(0x0fff::int) = mask 12" by (simp add: mask_eq_exp_minus_1)
  then have "x AND 0x0fff = take_bit 12 x" by (simp add: take_bit_eq_mask)
  then show ?thesis by (simp add: take_bit_eq_mod)
qed

lemma random12_range: "0 \<le> random12 r \<and> random12 r < 4096"
  by (simp add: random12_def and_0fff)

text \<open>
  The busy wait of the Node variant returns the first reading above \<open>currentMs\<close>, after
  having read and dropped every reading before it; it does not return while the clock
  stays at or below \<open>currentMs\<close>.
\<close>

lemma waitNextMs_Some:
  "waitNextMs c clk = Some (t, clk') \<Longrightarrow>
     c < t \<and> (\<exists>pre. clk = pre @ t # clk' \<and> (\<forall>x \<in> set pre. x \<le> c))"
proof (induction clk)
  case Nil
  then show ?case by simp
next
  case (Cons a clk)
  show ?case
  proof (cases "a \<le> c")
    case True
    with Cons.prems have "waitNextMs c clk = Some (t, clk')" by simp
    from Cons.IH [OF this] obtain pre where
      "c < t" "clk = pre @ t # clk'" "\<forall>x \<in> set pre. x \<le> c" by blast
    with True have "a # clk = (a # pre) @ t # clk' \<and> (\<forall>x \<in> set (a # pre). x \<le> c)"
      by simp
    with \<open>c < t\<close> show ?thesis by blast
  next
    case False
    with Cons.prems have "t = a" "clk' = clk" by simp_all
    with False have "a # clk = [] @ t # clk' \<and> (\<forall>x \<in> set []. x \<le> c)" by simp
    with False \<open>t = a\<close> show ?thesis by (metis not_le)
  qed
qed

lemma waitNextMs_None: "waitNextMs c clk = None \<longleftrightarrow> (\<forall>x \<in> set clk. x \<le> c)"
  by (induction clk) auto

lemma v7_state_eq: "(st :: v7_state)\<lparr>seq12 := b, lastMs := a\<rparr> = \<lparr>lastMs = a, seq12 = b\<rparr>"
  by (cases st) simp

lemma node_overflow:
  assumes "(seq12 st + 1) AND 0x0fff = 0"
  shows "generateV7Base64Url_node st (lastMs st # clk) ri rb uw =
     (case waitNextMs (lastMs st) clk of
        None \<Rightarrow> None
      | Some (t, clk') \<Rightarrow>
          Some (toBase64Url (packUuidV7_node uw t 0 (map rb [0..<8])),
                \<lparr>lastMs = t, seq12 = 0\<rparr>, clk'))"
  using assms
  by (simp add: generateV7Base64Url_node_def Let_def v7_state_eq split: option.splits)

lemma node_output:
  assumes "generateV7Base64Url_node st clk ri rb uw = Some (out, st', clk')"
  shows "out = toBase64Url (packUuidV7_node uw (lastMs st') (seq12 st') (map rb [0..<8]))"
  using assms
  by (auto simp add: generateV7Base64Url_node_def Let_def
      split: list.splits option.splits if_splits)

lemma web_step:
  "generateV7Base64Url_web st (now # clk) r rv =
     (let st' =
        (if lastMs st < now then \<lparr>lastMs = now, seq12 = random12 r\<rparr>
         else if (seq12 st + 1) AND 0x0fff = 0 then \<lparr>lastMs = lastMs st + 1, seq12 = 0\<rparr>
         else \<lparr>lastMs = lastMs st, seq12 = (seq12 st + 1) AND 0x0fff\<rparr>)
      in Some (map_option toBase64Url
                 (packUuidV7_web (lastMs st') (seq12 st') (randomTail8 rv)), st', clk))"
  by (simp add: generateV7Base64Url_web_def Let_def v7_state_eq)

lemma web_output:
  assumes "generateV7Base64Url_web st clk r rv = Some (out, st', clk')"
  shows "\<exists>b. out = Some (toBase64Url b) \<and>
           packUuidV7_web (lastMs st') (seq12 st') (randomTail8 rv) = Some b"
proof -
  from assms obtain now where clk: "clk = now # clk'"
    by (cases clk) (simp_all add: generateV7Base64Url_web_def Let_def split: prod.splits)
  have "length (randomTail8 rv) = 8" by (simp add: randomTail8_def)
  from packUuidV7_web_bits [OF this] obtain b where
    "packUuidV7_web (lastMs st') (seq12 st') (randomTail8 rv) = Some b" by blast
  with assms show ?thesis
    unfolding clk web_step by (auto simp add: Let_def split: if_splits)
qed

text \<open>
  The web variant: with the sequence inside its twelve bits, every call makes the pair of
  timestamp and sequence strictly greater, whatever the clock reads, and reads the clock
  once.
\<close>

lemma web_key_increases:
  assumes "generateV7Base64Url_web st (now # clk) r rv = Some (out, st', clk')"
    and "0 \<le> seq12 st" and "seq12 st < 4096"
  shows "(lastMs st < lastMs st' \<or> (lastMs st = lastMs st' \<and> seq12 st < seq12 st')) \<and>
         0 \<le> seq12 st' \<and> seq12 st' < 4096 \<and> now \<le> lastMs st' \<and> clk' = clk"
proof -
  have s: "(seq12 st + 1) AND 0x0fff = (if seq12 st = 4095 then 0 else seq12 st + 1)"
    using assms(2,3) by (simp add: and_0fff)
  with assms random12_range [of r] show ?thesis
    by (auto simp add: web_step Let_def split: if_splits)
qed

text \<open>
  The 48-bit generator: over any number of calls and any clock trace the emitted
  timestamps are sorted.
\<close>

lemma generateTimes_monotone:
  "generateTimes n g clk = Some (rs, g', clk') \<Longrightarrow>
     \<exists>ts. rs = map timestampToBuffer ts \<and> sorted ts \<and> (\<forall>t \<in> set ts. lastSystemTime g \<le> t)
        \<and> lastSystemTime g \<le> lastSystemTime g'
        \<and> (\<forall>t \<in> set ts. t \<le> lastSystemTime g')"
proof (induction n arbitrary: g clk rs)
  case 0
  then show ?case by auto
next
  case (Suc n)
  from Suc.prems obtain r g1 clk1 rs1 where
    step: "generate g clk = Some (r, g1, clk1)" and
    rest: "generateTimes n g1 clk1 = Some (rs1, g', clk')" and rs: "rs = r # rs1"
    by (auto split: option.splits)
  from generate_emits(1) [OF step]
  have r: "r = timestampToBuffer (lastSystemTime g1)"
    and le: "lastSystemTime g \<le> lastSystemTime g1"
    by simp_all
  from Suc.IH [OF rest] obtain ts where
    ts: "rs1 = map timestampToBuffer ts" "sorted ts" "\<forall>t \<in> set ts. lastSystemTime g1 \<le> t"
      "lastSystemTime g1 \<le> lastSystemTime g'" "\<forall>t \<in> set ts. t \<le> lastSystemTime g'"
    by blast
  let ?ts = "lastSystemTime g1 # ts"
  have "rs = map timestampToBuffer ?ts" using rs r ts(1) by simp
  moreover have "sorted ?ts" using ts(2,3) by simp
  moreover have "\<forall>t \<in> set ?ts. lastSystemTime g \<le> t" using le ts(3) by auto
  moreover have "lastSystemTime g \<le> lastSystemTime g'" using le ts(4) by simp
  moreover have "\<forall>t \<in> set ?ts. t \<le> lastSystemTime g'" using ts(4,5) by auto
  ultimately show ?case by blast
qed

section \<open>The Base64URL round trip\<close>

text \<open>
  C5, as the claim states it, fails in its second half. The texts \<open>Q\<close> and \<open>QR\<close> are
  valid Base64URL for \<open>isValidBase64URL\<close> and decode without an error. The six bits of
  \<open>Q\<close> alone give no byte: it decodes to the empty buffer, whose encoding is the empty
  text. \<open>QR\<close> decodes to the one byte 65; the four low bits of \<open>R\<close> are dropped, and
  encoding the byte gives \<open>QQ\<close>, another text.
\<close>

theorem round_trip_counterexample:
  "isValidBase64URL ''Q'' \<and> decodeBase64URL ''Q'' = Inr [] \<and> encodeBase64URL [] = [] \<and>
   isValidBase64URL ''QR'' \<and> decodeBase64URL ''QR'' = Inr [65] \<and>
   encodeBase64URL [65] = ''QQ''"
  by code_simp

text \<open>
  C5, amended. For every byte string, of six bytes or of any other length, decoding its
  encoding gives the byte string back. Encoding what a text decodes to gives the text back
  exactly when the text is the encoding of some byte string. Every valid Base64URL text
  whose length is a multiple of four is such a text; these are in particular the texts
  \<open>isValidTimestampBase64URL\<close> accepts, which have eight characters and decode to six
  bytes.
\<close>

theorem round_trip_amended:
  "decodeBase64URL (encodeBase64URL b) = Inr b \<and>
   ((\<exists>b'. decodeBase64URL str = Inr b' \<and> encodeBase64URL b' = str) \<longleftrightarrow>
      (\<exists>c. str = encodeBase64URL c)) \<and>
   (isValidBase64URL str \<and> length str mod 4 = 0 \<longrightarrow>
      (\<exists>b'. decodeBase64URL str = Inr b' \<and> encodeBase64URL b' = str)) \<and>
   (isValidTimestampBase64URL str \<longrightarrow>
      (\<exists>b'. decodeBase64URL str = Inr b' \<and> length b' = 6 \<and> encodeBase64URL b' = str))"
proof (intro conjI impI)
  show "decodeBase64URL (encodeBase64URL b) = Inr b"
    by (rule decodeBase64URL_encodeBase64URL)
next
  show "(\<exists>b'. decodeBase64URL str = Inr b' \<and> encodeBase64URL b' = str) \<longleftrightarrow>
      (\<exists>c. str = encodeBase64URL c)"
  proof
    assume "\<exists>b'. decodeBase64URL str = Inr b' \<and> encodeBase64URL b' = str"
    then show "\<exists>c. str = encodeBase64URL c" by auto
  next
    assume "\<exists>c. str = encodeBase64URL c"
    then obtain c where "str = encodeBase64URL c" ..
    with decodeBase64URL_encodeBase64URL [of c]
    show "\<exists>b'. decodeBase64URL str = Inr b' \<and> encodeBase64URL b' = str" by auto
  qed
next
  assume "isValidBase64URL str \<and> length str mod 4 = 0"
  then have "list_all (\<lambda>c. c \<in> set base64url_alphabet) str" "length str mod 4 = 0"
    by (simp_all add: isValidBase64URL_iff)
  from encodeBase64URL_decodeBase64URL [OF this]
  show "\<exists>b'. decodeBase64URL str = Inr b' \<and> encodeBase64URL b' = str" by blast
next
  assume "isValidTimestampBase64URL str"
  then have v: "isValidBase64URL str" and l: "length str = 8"
    by (auto simp add: isValidTimestampBase64URL_def split: if_splits)
  from v have "list_all (\<lambda>c. c \<in> set base64url_alphabet) str"
    by (simp add: isValidBase64URL_iff)
  moreover from l have "length str mod 4 = 0" by simp
  ultimately have "\<exists>b'. decodeBase64URL str = Inr b' \<and> encodeBase64URL b' = str \<and>
      length b' = length str div 4 * 3"
    by (rule encodeBase64URL_decodeBase64URL)
  then obtain b' where "decodeBase64URL str = Inr b'" "encodeBase64URL b' = str"
    "length b' = length str div 4 * 3"
    by blast
  with l show "\<exists>b'. decodeBase64URL str = Inr b' \<and> length b' = 6 \<and> encodeBase64URL b' = str"
    by simp
qed

theorem round_trip_amended_witness:
  "isValidTimestampBase64URL ''AQIDBAUG'' \<and> length ''AQIDBAUG'' mod 4 = 0 \<and>
   isValidBase64URL ''AQIDBAUG'' \<and>
   decodeBase64URL ''AQIDBAUG'' = Inr [1, 2, 3, 4, 5, 6] \<and>
   encodeBase64URL [1, 2, 3, 4, 5, 6] = ''AQIDBAUG''"
proof -
  have h1: "isValidTimestampBase64URL ''AQIDBAUG''" by code_simp
  have h2: "isValidBase64URL ''AQIDBAUG'' \<and> length ''AQIDBAUG'' mod 4 = 0" by code_simp
  have e: "encodeBase64URL [1, 2, 3, 4, 5, 6] = ''AQIDBAUG''" by code_simp
  from round_trip_amended [of "[1, 2, 3, 4, 5, 6]" "''AQIDBAUG''"] e
  have "decodeBase64URL ''AQIDBAUG'' = Inr [1, 2, 3, 4, 5, 6]" by simp
  with h1 h2 e show ?thesis by simp
qed

section \<open>Version and variant of the 128-bit value\<close>

text \<open>
  C9. Whatever the state, the clock trace, the sequence value and the random bytes are,
  the text a 128-bit generator returns decodes to the sixteen bytes it packed, and in them
  the top four bits of byte 6 are \<open>0111\<close> and the top two bits of byte 8 are \<open>10\<close>. This
  holds for the Node variant and for the web variant.
\<close>

theorem version_and_variant_bits:
  "(generateV7Base64Url_node st clk randomInt randomBytes unwritten = Some (out, st', clk') \<longrightarrow>
      base64_decode out =
        packUuidV7_node unwritten (lastMs st') (seq12 st') (map randomBytes [0..<8]) \<and>
      length (base64_decode out) = 16 \<and>
      drop_bit 4 (base64_decode out ! 6) = 7 \<and> drop_bit 6 (base64_decode out ! 8) = 2) \<and>
   (generateV7Base64Url_web st clk randomValue randomValues = Some (out', st'', clk'') \<longrightarrow>
      (\<exists>t. out' = Some t \<and>
         Some (base64_decode t) =
           packUuidV7_web (lastMs st'') (seq12 st'') (randomTail8 randomValues) \<and>
         length (base64_decode t) = 16 \<and>
         drop_bit 4 (base64_decode t ! 6) = 7 \<and> drop_bit 6 (base64_decode t ! 8) = 2))"
proof (intro conjI impI)
  assume "generateV7Base64Url_node st clk randomInt randomBytes unwritten = Some (out, st', clk')"
  from node_output [OF this]
  have "base64_decode out =
      packUuidV7_node unwritten (lastMs st') (seq12 st') (map randomBytes [0..<8])"
    by (simp add: base64_decode_toBase64Url)
  moreover have "length (map randomBytes [0..<8]) = 8" by simp
  note packUuidV7_node_bits(1,2,3) [OF this]
  ultimately show
    "base64_decode out =
       packUuidV7_node unwritten (lastMs st') (seq12 st') (map randomBytes [0..<8])"
    "length (base64_decode out) = 16"
    "drop_bit 4 (base64_decode out ! 6) = 7" "drop_bit 6 (base64_decode out ! 8) = 2"
    by simp_all
next
  assume "generateV7Base64Url_web st clk randomValue randomValues = Some (out', st'', clk'')"
  from web_output [OF this] obtain b where
    b: "out' = Some (toBase64Url b)"
      "packUuidV7_web (lastMs st'') (seq12 st'') (randomTail8 randomValues) = Some b"
    by blast
  have "length (randomTail8 randomValues) = 8" by (simp add: randomTail8_def)
  from packUuidV7_web_bits [OF this, of "lastMs st''" "seq12 st''"] b(2)
  have "length b = 16" "drop_bit 4 (b ! 6) = 7" "drop_bit 6 (b ! 8) = 2" by auto
  with b show "\<exists>t. out' = Some t \<and>
         Some (base64_decode t) =
           packUuidV7_web (lastMs st'') (seq12 st'') (randomTail8 randomValues) \<and>
         length (base64_decode t) = 16 \<and>
         drop_bit 4 (base64_decode t ! 6) = 7 \<and> drop_bit 6 (base64_decode t ! 8) = 2"
    by (simp add: base64_decode_toBase64Url)
qed

theorem version_and_variant_bits_witness:
  "generateV7Base64Url_node \<lparr>lastMs = 0, seq12 = 0\<rparr> [5] 7 zero_source zero_source =
     Some (''AAAAAAAFcAeAAAAAAAAAAA'', \<lparr>lastMs = 5, seq12 = 7\<rparr>, []) \<and>
   generateV7Base64Url_web \<lparr>lastMs = 0, seq12 = 0\<rparr> [5] 7 zero_source =
     Some (Some ''AAAAAAAFcAeAAAAAAAAAAA'', \<lparr>lastMs = 5, seq12 = 7\<rparr>, []) \<and>
   drop_bit 4 (base64_decode ''AAAAAAAFcAeAAAAAAAAAAA'' ! 6) = 7 \<and>
   drop_bit 6 (base64_decode ''AAAAAAAFcAeAAAAAAAAAAA'' ! 8) = 2"
proof -
  have n: "generateV7Base64Url_node \<lparr>lastMs = 0, seq12 = 0\<rparr> [5] 7 zero_source zero_source =
     Some (''AAAAAAAFcAeAAAAAAAAAAA'', \<lparr>lastMs = 5, seq12 = 7\<rparr>, [])"
    by code_simp
  have w: "generateV7Base64Url_web \<lparr>lastMs = 0, seq12 = 0\<rparr> [5] 7 zero_source =
     Some (Some ''AAAAAAAFcAeAAAAAAAAAAA'', \<lparr>lastMs = 5, seq12 = 7\<rparr>, [])"
    by code_simp
  from version_and_variant_bits [of "\<lparr>lastMs = 0, seq12 = 0\<rparr>" "[5]" 7 zero_source zero_source
      "''AAAAAAAFcAeAAAAAAAAAAA''" "\<lparr>lastMs = 5, seq12 = 7\<rparr>" "[]" 7 zero_source
      "Some ''AAAAAAAFcAeAAAAAAAAAAA''" "\<lparr>lastMs = 5, seq12 = 7\<rparr>" "[]"] n
  have "drop_bit 4 (base64_decode ''AAAAAAAFcAeAAAAAAAAAAA'' ! 6) = 7 \<and>
      drop_bit 6 (base64_decode ''AAAAAAAFcAeAAAAAAAAAAA'' ! 8) = 2"
    by blast
  with n w show ?thesis by blast
qed

section \<open>Monotonic output\<close>

text \<open>
  C1 holds for the 48-bit generator (\<open>generateTimes_monotone\<close>) and for the web variant
  (\<open>web_key_increases\<close>). The Node variant breaks it: it has no case for a clock that moved
  backward. From the initial state the clock reads 1700000000005 and then 1700000000003;
  the first call emits the timestamp 1700000000005, the second call emits the timestamp
  1700000000003.
\<close>

theorem node_variant_goes_backward:
  "generateV7Base64Url_node \<lparr>lastMs = 0, seq12 = 0\<rparr> [1700000000005, 1700000000003] 7
     zero_source zero_source =
     Some (''AYvP5WgFcAeAAAAAAAAAAA'', \<lparr>lastMs = 1700000000005, seq12 = 7\<rparr>,
           [1700000000003]) \<and>
   generateV7Base64Url_node \<lparr>lastMs = 1700000000005, seq12 = 7\<rparr> [1700000000003] 9
     zero_source zero_source =
     Some (''AYvP5WgDcAmAAAAAAAAAAA'', \<lparr>lastMs = 1700000000003, seq12 = 9\<rparr>, []) \<and>
   bufferToTimestamp (take 6 (base64_decode ''AYvP5WgFcAeAAAAAAAAAAA'')) = Inr 1700000000005 \<and>
   bufferToTimestamp (take 6 (base64_decode ''AYvP5WgDcAmAAAAAAAAAAA'')) = Inr 1700000000003"
  by code_simp

section \<open>A clock that moved backward\<close>

text \<open>
  C3, as the claim states it, fails for the web variant: the clock reads 3 while \<open>lastMs\<close>
  is 10, and the call keeps \<open>lastMs = 10\<close> and increments the sequence from 5 to 6; it
  neither adds 1 to \<open>lastMs\<close> nor resets the counter.
\<close>

theorem clock_backward_counterexample:
  "generateV7Base64Url_web \<lparr>lastMs = 10, seq12 = 5\<rparr> [3] 0 zero_source =
     Some (Some ''AAAAAAAKcAaAAAAAAAAAAA'', \<lparr>lastMs = 10, seq12 = 6\<rparr>, [])"
  by code_simp

text \<open>
  C3, amended. When the clock reading is below the last timestamp: the 48-bit generator
  sets \<open>lastSystemTime\<close> to \<open>lastSystemTime + 1\<close>, resets the counter to 0, and the outcome
  is \<open>_timestampToBuffer\<close> of \<open>lastSystemTime + 1\<close>. The web variant of the 128-bit generator
  keeps \<open>lastMs\<close> and increments the sequence modulo 4096; only when the sequence wraps to
  0 it sets \<open>lastMs\<close> to \<open>lastMs + 1\<close>. It returns the text of the value packed from that
  timestamp and sequence, and the timestamp it emits is never below \<open>lastMs\<close>.
\<close>

theorem clock_backward_amended:
  "(now < lastSystemTime g \<longrightarrow>
      generate g (now # clk) =
        Some (timestampToBuffer (lastSystemTime g + 1),
              g\<lparr>lastSystemTime := lastSystemTime g + 1, subMillisecondCounter := 0\<rparr>, clk)) \<and>
   (now < lastMs st \<longrightarrow>
      (\<exists>b st'. generateV7Base64Url_web st (now # clk) randomValue randomValues =
                 Some (Some (toBase64Url b), st', clk) \<and>
         packUuidV7_web (lastMs st') (seq12 st') (randomTail8 randomValues) = Some b \<and>
         st' = (if (seq12 st + 1) AND 0x0fff = 0 then \<lparr>lastMs = lastMs st + 1, seq12 = 0\<rparr>
                else \<lparr>lastMs = lastMs st, seq12 = (seq12 st + 1) AND 0x0fff\<rparr>) \<and>
         lastMs st \<le> lastMs st'))"
proof (intro conjI impI)
  assume "now < lastSystemTime g"
  then show "generate g (now # clk) =
        Some (timestampToBuffer (lastSystemTime g + 1),
              g\<lparr>lastSystemTime := lastSystemTime g + 1, subMillisecondCounter := 0\<rparr>, clk)"
    by (rule generate_backward)
next
  assume lt: "now < lastMs st"
  let ?st' = "if (seq12 st + 1) AND 0x0fff = 0 then \<lparr>lastMs = lastMs st + 1, seq12 = 0\<rparr>
                else \<lparr>lastMs = lastMs st, seq12 = (seq12 st + 1) AND 0x0fff\<rparr>"
  from lt have step: "generateV7Base64Url_web st (now # clk) randomValue randomValues =
      Some (map_option toBase64Url
              (packUuidV7_web (lastMs ?st') (seq12 ?st') (randomTail8 randomValues)), ?st', clk)"
    by (simp add: web_step Let_def)
  from web_output [OF step] obtain b where
    "map_option toBase64Url
       (packUuidV7_web (lastMs ?st') (seq12 ?st') (randomTail8 randomValues)) =
     Some (toBase64Url b)"
    "packUuidV7_web (lastMs ?st') (seq12 ?st') (randomTail8 randomValues) = Some b"
    by blast
  with step have "generateV7Base64Url_web st (now # clk) randomValue randomValues =
      Some (Some (toBase64Url b), ?st', clk) \<and>
    packUuidV7_web (lastMs ?st') (seq12 ?st') (randomTail8 randomValues) = Some b \<and>
    ?st' = ?st' \<and> lastMs st \<le> lastMs ?st'"
    by simp
  then show "\<exists>b st'. generateV7Base64Url_web st (now # clk) randomValue randomValues =
                 Some (Some (toBase64Url b), st', clk) \<and>
         packUuidV7_web (lastMs st') (seq12 st') (randomTail8 randomValues) = Some b \<and>
         st' = ?st' \<and> lastMs st \<le> lastMs st'"
    by blast
qed

theorem clock_backward_amended_witness:
  "(5 :: int) < lastSystemTime example_generator \<and>
   generate example_generator [5] =
     Some (Inr [0, 0, 0, 0, 0, 11],
           example_generator\<lparr>lastSystemTime := 11, subMillisecondCounter := 0\<rparr>, []) \<and>
   (3 :: int) < lastMs \<lparr>lastMs = 10, seq12 = 4095\<rparr> \<and>
   generateV7Base64Url_web \<lparr>lastMs = 10, seq12 = 4095\<rparr> [3] 0 zero_source =
     Some (Some ''AAAAAAALcACAAAAAAAAAAA'', \<lparr>lastMs = 11, seq12 = 0\<rparr>, [])"
proof -
  have h1: "(5 :: int) < lastSystemTime example_generator"
    by (simp add: example_generator_def)
  have h2: "(3 :: int) < lastMs \<lparr>lastMs = 10, seq12 = 4095\<rparr>" by simp
  have w: "generateV7Base64Url_web \<lparr>lastMs = 10, seq12 = 4095\<rparr> [3] 0 zero_source =
     Some (Some ''AAAAAAALcACAAAAAAAAAAA'', \<lparr>lastMs = 11, seq12 = 0\<rparr>, [])"
    by code_simp
  from clock_backward_amended [of 5 example_generator "[]"] h1
  have "generate example_generator [5] =
     Some (Inr [0, 0, 0, 0, 0, 11],
           example_generator\<lparr>lastSystemTime := 11, subMillisecondCounter := 0\<rparr>, [])"
    by (simp add: example_generator_def timestampToBuffer_def)
  with h1 h2 w show ?thesis by simp
qed

section \<open>Sequence overflow in the 128-bit generators\<close>

text \<open>
  C6, as the claim states it, fails for the Node variant. The sequence is 4095 and the
  clock reads the millisecond of \<open>lastMs\<close>, 5: the call polls the clock, past the readings
  5 and 5, until it reads 9, and uses 9 as the timestamp, not \<open>lastMs + 1 = 6\<close>. On a clock
  that stays at 5 for the rest of the trace the call does not return.
\<close>

theorem sequence_overflow_counterexample:
  "generateV7Base64Url_node \<lparr>lastMs = 5, seq12 = 4095\<rparr> [5, 5, 5, 9] 0 zero_source zero_source =
     Some (''AAAAAAAJcACAAAAAAAAAAA'', \<lparr>lastMs = 9, seq12 = 0\<rparr>, []) \<and>
   generateV7Base64Url_node \<lparr>lastMs = 5, seq12 = 4095\<rparr> [5, 5, 5] 0 zero_source zero_source =
     None"
  by code_simp

text \<open>
  C6, amended. The web variant reads the clock once in every call and returns; when the
  sequence wraps to 0 in a call whose reading is not above \<open>lastMs\<close>, it uses the timestamp
  \<open>lastMs + 1\<close>. The Node variant, when the sequence wraps to 0 in the millisecond of
  \<open>lastMs\<close>, polls the clock until a reading is above \<open>lastMs\<close> and uses that reading as
  the timestamp; it does not return as long as the clock stays at or below \<open>lastMs\<close>.
\<close>

theorem sequence_overflow_amended:
  "(\<exists>out st'. generateV7Base64Url_web st (now # clk) randomValue randomValues =
       Some (Some out, st', clk)) \<and>
   ((seq12 st + 1) AND 0x0fff = 0 \<and> now \<le> lastMs st \<longrightarrow>
      (\<exists>out. generateV7Base64Url_web st (now # clk) randomValue randomValues =
         Some (Some out, \<lparr>lastMs = lastMs st + 1, seq12 = 0\<rparr>, clk))) \<and>
   ((seq12 st + 1) AND 0x0fff = 0 \<longrightarrow>
      (generateV7Base64Url_node st (lastMs st # clk) randomInt randomBytes unwritten = None
         \<longleftrightarrow> (\<forall>t \<in> set clk. t \<le> lastMs st)) \<and>
      (\<forall>out st' clk'.
         generateV7Base64Url_node st (lastMs st # clk) randomInt randomBytes unwritten =
           Some (out, st', clk') \<longrightarrow>
         seq12 st' = 0 \<and> lastMs st < lastMs st' \<and>
         (\<exists>polled. clk = polled @ lastMs st' # clk' \<and> (\<forall>t \<in> set polled. t \<le> lastMs st))))"
proof (intro conjI impI allI)
  let ?st' = "if lastMs st < now then \<lparr>lastMs = now, seq12 = random12 randomValue\<rparr>
         else if (seq12 st + 1) AND 0x0fff = 0 then \<lparr>lastMs = lastMs st + 1, seq12 = 0\<rparr>
         else \<lparr>lastMs = lastMs st, seq12 = (seq12 st + 1) AND 0x0fff\<rparr>"
  have step: "generateV7Base64Url_web st (now # clk) randomValue randomValues =
      Some (map_option toBase64Url
              (packUuidV7_web (lastMs ?st') (seq12 ?st') (randomTail8 randomValues)), ?st', clk)"
    by (simp add: web_step Let_def)
  from web_output [OF step] obtain b where
    b: "map_option toBase64Url
       (packUuidV7_web (lastMs ?st') (seq12 ?st') (randomTail8 randomValues)) =
     Some (toBase64Url b)"
    by blast
  from step have g: "generateV7Base64Url_web st (now # clk) randomValue randomValues =
      Some (Some (toBase64Url b), ?st', clk)"
    by (simp only: b)
  then show "\<exists>out st'. generateV7Base64Url_web st (now # clk) randomValue randomValues =
       Some (Some out, st', clk)"
    by blast
  {
    assume "(seq12 st + 1) AND 0x0fff = 0 \<and> now \<le> lastMs st"
    then have "?st' = \<lparr>lastMs = lastMs st + 1, seq12 = 0\<rparr>" by simp
    with g have "generateV7Base64Url_web st (now # clk) randomValue randomValues =
         Some (Some (toBase64Url b), \<lparr>lastMs = lastMs st + 1, seq12 = 0\<rparr>, clk)"
      by (simp only:)
    then show "\<exists>out. generateV7Base64Url_web st (now # clk) randomValue randomValues =
         Some (Some out, \<lparr>lastMs = lastMs st + 1, seq12 = 0\<rparr>, clk)"
      by blast
  }
next
  assume ov: "(seq12 st + 1) AND 0x0fff = 0"
  show "generateV7Base64Url_node st (lastMs st # clk) randomInt randomBytes unwritten = None
         \<longleftrightarrow> (\<forall>t \<in> set clk. t \<le> lastMs st)"
    unfolding node_overflow [OF ov] waitNextMs_None [symmetric]
    by (simp split: option.splits)
next
  fix out st' clk'
  assume ov: "(seq12 st + 1) AND 0x0fff = 0"
    and gen: "generateV7Base64Url_node st (lastMs st # clk) randomInt randomBytes unwritten =
           Some (out, st', clk')"
  from gen obtain t where w: "waitNextMs (lastMs st) clk = Some (t, clk')"
    and st': "st' = \<lparr>lastMs = t, seq12 = 0\<rparr>"
    unfolding node_overflow [OF ov] by (auto split: option.splits)
  from waitNextMs_Some [OF w] st'
  show "seq12 st' = 0" and "lastMs st < lastMs st'"
    and "\<exists>polled. clk = polled @ lastMs st' # clk' \<and> (\<forall>t \<in> set polled. t \<le> lastMs st)"
    by simp_all
qed

theorem sequence_overflow_amended_witness:
  "((seq12 \<lparr>lastMs = 5, seq12 = 4095\<rparr> + 1) AND 0x0fff = 0 \<and>
      (5 :: int) \<le> lastMs \<lparr>lastMs = 5, seq12 = 4095\<rparr>) \<and>
   generateV7Base64Url_web \<lparr>lastMs = 5, seq12 = 4095\<rparr> [5, 5, 5, 9] 0 zero_source =
     Some (Some ''AAAAAAAGcACAAAAAAAAAAA'', \<lparr>lastMs = 6, seq12 = 0\<rparr>, [5, 5, 9]) \<and>
   generateV7Base64Url_node \<lparr>lastMs = 5, seq12 = 4095\<rparr> [5, 5, 5] 0 zero_source zero_source
     = None"
proof -
  have h: "(seq12 \<lparr>lastMs = 5, seq12 = 4095\<rparr> + 1) AND 0x0fff = 0 \<and>
      (5 :: int) \<le> lastMs \<lparr>lastMs = 5, seq12 = 4095\<rparr>"
    by simp
  have w: "generateV7Base64Url_web \<lparr>lastMs = 5, seq12 = 4095\<rparr> [5, 5, 5, 9] 0 zero_source =
     Some (Some ''AAAAAAAGcACAAAAAAAAAAA'', \<lparr>lastMs = 6, seq12 = 0\<rparr>, [5, 5, 9])"
    by code_simp
  from sequence_overflow_amended [of "\<lparr>lastMs = 5, seq12 = 4095\<rparr>" 5 "[5, 5]" 0 zero_source
      0 zero_source zero_source] h
  have "generateV7Base64Url_node \<lparr>lastMs = 5, seq12 = 4095\<rparr> [5, 5, 5] 0 zero_source zero_source
     = None"
    by simp
  with h w show ?thesis by simp
qed

section \<open>Format tokens\<close>

text \<open>
  \<open>formatOutput\<close>, through which \<open>generate\<close> and \<open>convert\<close> produce their result, throws for
  a token that is not one of the three formats.
\<close>

lemma formatOutput_unknown:
  "format \<notin> {''base64url'', ''hex'', ''buffer''} \<Longrightarrow>
     formatOutput buffer format = Inl (UnsupportedFormat format)"
  by (simp add: formatOutput_def)

lemma index_generate_unknown:
  assumes "format \<notin> {''base64url'', ''hex'', ''buffer''}"
    and "generate g clk = Some (Inr buffer, g', clk')"
  shows "index_generate g clk format =
           Some (Inl (if string_includes format ''48-bit limit'' then TimestampExceedsLimit
                      else FailedToGenerate (UnsupportedFormat format)), g', clk')"
  using assms by (simp add: index_generate_def formatOutput_def)

text \<open>
  The error of \<open>_timestampToBuffer\<close> carries the timestamp; \<open>generate\<close> of index.js
  replaces it by an error whose message has no value in it.
\<close>

lemma index_generate_limit:
  assumes "generate g clk = Some (Inl (Exceeds48BitLimit t), g', clk')"
  shows "index_generate g clk format = Some (Inl TimestampExceedsLimit, g', clk')"
  using assms by (simp add: index_generate_def)

text \<open>
  \<open>validate\<close> never throws: not for malformed input, and not for an unknown token either,
  where its \<open>try\<close> block does throw and its own \<open>catch\<close> returns \<open>false\<close>.
\<close>

lemma validate_returns: "\<exists>b. validate timestamp format = Inr b"
  by (cases "validate_try timestamp format") (auto simp add: validate_def)

lemma validate_unknown:
  "format \<notin> {''base64url'', ''hex'', ''buffer''} \<Longrightarrow>
     validate_try timestamp format = Inl (InvalidFormat format) \<and>
     validate timestamp format = Inr False"
  by (simp add: validate_def validate_try_def)

text \<open>
  So \<open>convert\<close> with an unknown source format fails in its first statement, as for an
  invalid timestamp, and never reaches its own \<open>Unsupported source format\<close>; with a valid
  value and an unknown target format it fails in \<open>formatOutput\<close>.
\<close>

lemma convert_unknown_source:
  "fromFormat \<notin> {''base64url'', ''hex'', ''buffer''} \<Longrightarrow>
     convert timestamp fromFormat toFormat = Inl (InvalidTimestampForFormat fromFormat)"
  by (simp add: convert_def validate_unknown)

lemma convert_unknown_target:
  assumes "validate timestamp fromFormat = Inr True"
    and "toFormat \<notin> {''base64url'', ''hex'', ''buffer''}"
  shows "convert timestamp fromFormat toFormat = Inl (UnsupportedFormat toFormat)"
proof -
  have known: "fromFormat \<in> {''base64url'', ''hex'', ''buffer''}"
    using assms(1) validate_unknown [of fromFormat timestamp] by auto
  have b64: "\<exists>b. base64URLToTimestamp s = Inr b" if "isValidTimestampBase64URL s" for s
    using that
    by (auto simp add: base64URLToTimestamp_def isValidTimestampBase64URL_def
        split: if_splits sum.splits)
  from known consider "fromFormat = ''base64url''" | "fromFormat = ''hex''"
    | "fromFormat = ''buffer''" by auto
  then show ?thesis
  proof cases
    case 1
    with assms(1) obtain s where "timestamp = JSString s" "isValidTimestampBase64URL s"
      by (cases timestamp) (auto simp add: validate_def validate_try_def)
    with b64 [of s] 1 assms show ?thesis
      by (auto simp add: convert_def formatOutput_def)
  next
    case 2
    with assms(1) obtain s where "timestamp = JSString s"
      by (cases timestamp) (auto simp add: validate_def validate_try_def)
    with 2 assms show ?thesis by (simp add: convert_def formatOutput_def)
  next
    case 3
    with assms(1) obtain b where "timestamp = JSBuffer b"
      by (cases timestamp) (auto simp add: validate_def validate_try_def)
    with 3 assms show ?thesis by (simp add: convert_def formatOutput_def)
  qed
qed

text \<open>
  C8 is what the \<open>throw\<close> statements of the code say, and the code misses it in \<open>validate\<close>.
  For the valid timestamp text \<open>AZjMtm5O\<close> and the unknown token \<open>xml\<close>: the \<open>try\<close> block of
  \<open>validate\<close> throws, \<open>validate\<close> returns \<open>false\<close> and no error, and \<open>convert\<close> from \<open>xml\<close> reports
  an invalid timestamp; \<open>formatOutput\<close>, and with it \<open>generate\<close> and \<open>convert\<close> to \<open>xml\<close>, fail
  with the error of the unsupported format.
\<close>

theorem validate_unknown_format_returns_false:
  "validate_try (JSString ''AZjMtm5O'') ''xml'' = Inl (InvalidFormat ''xml'') \<and>
   validate (JSString ''AZjMtm5O'') ''xml'' = Inr False \<and>
   validate (JSString ''AZjMtm5O'') ''base64url'' = Inr True \<and>
   convert (JSString ''AZjMtm5O'') ''xml'' ''hex'' = Inl (InvalidTimestampForFormat ''xml'') \<and>
   convert (JSString ''AZjMtm5O'') ''base64url'' ''xml'' = Inl (UnsupportedFormat ''xml'') \<and>
   index_generate example_generator [1000] ''xml'' =
     Some (Inl (FailedToGenerate (UnsupportedFormat ''xml'')),
           \<lparr>lastSystemTime = 1000, subMillisecondCounter = 0, maxSubMs = 4096,
            waitStrategy = ''increment''\<rparr>, [])"
  by code_simp

section \<open>The 48-bit limit\<close>

lemma bufferValue_bytes:
  "bufferValue [of_int (drop_bit 40 t AND 0xFF), of_int (drop_bit 32 t AND 0xFF),
      of_int (drop_bit 24 t AND 0xFF), of_int (drop_bit 16 t AND 0xFF),
      of_int (drop_bit 8 t AND 0xFF), of_int (t AND 0xFF)] = take_bit 48 t"
  unfolding bufferValue_six uint_byte_of take_bit_48_bytes by (simp only: ac_simps)

text \<open>
  The 128-bit packers have no range check: bytes 0 to 5 hold the low 48 bits of the
  timestamp, whatever the timestamp is.
\<close>

lemma packUuidV7_timestamp_field:
  assumes "length tail = 8"
  shows "bufferValue (take 6 (packUuidV7_node uw ts seq tail)) = take_bit 48 ts"
    and "\<exists>b. packUuidV7_web ts seq tail = Some b \<and> bufferValue (take 6 b) = take_bit 48 ts"
proof -
  from assms obtain x xs where t: "tail = x # xs" and xs: "length xs = 7"
    by (cases tail) auto
  have len: "length (packUuidV7_node uw ts seq tail) = 16"
    by (simp add: packUuidV7_node_def buffer_copy_def t xs)
  have "packUuidV7_node uw ts seq tail ! 0 = of_int (drop_bit 40 ts AND 0xFF)"
    "packUuidV7_node uw ts seq tail ! 1 = of_int (drop_bit 32 ts AND 0xFF)"
    "packUuidV7_node uw ts seq tail ! 2 = of_int (drop_bit 24 ts AND 0xFF)"
    "packUuidV7_node uw ts seq tail ! 3 = of_int (drop_bit 16 ts AND 0xFF)"
    "packUuidV7_node uw ts seq tail ! 4 = of_int (drop_bit 8 ts AND 0xFF)"
    "packUuidV7_node uw ts seq tail ! 5 = of_int (ts AND 0xFF)"
    by (simp_all add: packUuidV7_node_def buffer_copy_def t xs nth_append)
  with take_6 [of "packUuidV7_node uw ts seq tail"] len
  have "take 6 (packUuidV7_node uw ts seq tail) =
      [of_int (drop_bit 40 ts AND 0xFF), of_int (drop_bit 32 ts AND 0xFF),
       of_int (drop_bit 24 ts AND 0xFF), of_int (drop_bit 16 ts AND 0xFF),
       of_int (drop_bit 8 ts AND 0xFF), of_int (ts AND 0xFF)]"
    by simp
  then show "bufferValue (take 6 (packUuidV7_node uw ts seq tail)) = take_bit 48 ts"
    by (simp only: bufferValue_bytes)
  obtain b where b: "packUuidV7_web ts seq tail = Some b" and lb: "length b = 16"
    by (simp add: packUuidV7_web_def t xs)
  from b have "b ! 0 = of_int (drop_bit 40 ts AND 0xFF)"
    "b ! 1 = of_int (drop_bit 32 ts AND 0xFF)"
    "b ! 2 = of_int (drop_bit 24 ts AND 0xFF)"
    "b ! 3 = of_int (drop_bit 16 ts AND 0xFF)"
    "b ! 4 = of_int (drop_bit 8 ts AND 0xFF)"
    "b ! 5 = of_int (ts AND 0xFF)"
    by (auto simp add: packUuidV7_web_def t xs nth_append)
  with take_6 [of b] lb
  have "take 6 b =
      [of_int (drop_bit 40 ts AND 0xFF), of_int (drop_bit 32 ts AND 0xFF),
       of_int (drop_bit 24 ts AND 0xFF), of_int (drop_bit 16 ts AND 0xFF),
       of_int (drop_bit 8 ts AND 0xFF), of_int (ts AND 0xFF)]"
    by simp
  then have "bufferValue (take 6 b) = take_bit 48 ts" by (simp only: bufferValue_bytes)
  with b show "\<exists>b. packUuidV7_web ts seq tail = Some b \<and> bufferValue (take 6 b) = take_bit 48 ts"
    by blast
qed

text \<open>
  When a call of the 48-bit generator returns. It reads the clock once and returns, unless
  it has the \<open>wait\<close> strategy, meets the millisecond of \<open>lastSystemTime\<close> and the incremented
  counter reaches \<open>maxSubMs\<close>. Then it polls: it does not return while the clock stays at
  \<open>lastSystemTime\<close>, and it returns when, after the readings equal to \<open>lastSystemTime\<close>, two
  readings in a row differ from it.
\<close>

lemma generate_returns_at_once:
  "waitStrategy g \<noteq> ''wait'' \<or> now \<noteq> lastSystemTime g \<or>
     subMillisecondCounter g + 1 < maxSubMs g \<Longrightarrow>
   \<exists>r g'. generate g (now # clk) = Some (r, g', clk)"
  by (auto simp add: Let_def handleNewMillisecond_def handleClockBackward_def)

lemma waitForNextMillisecond_returns:
  assumes "\<forall>t \<in> set pre. t = lastSystemTime g" and "a \<noteq> lastSystemTime g"
    and "b \<noteq> lastSystemTime g"
  shows "\<exists>r g'. waitForNextMillisecond g (pre @ a # b # clk) = Some (r, g', clk)"
  using assms(1)
proof (induction pre)
  case Nil
  from generate_returns_at_once [of g b clk] assms(2,3) show ?case by simp
next
  case (Cons t pre)
  then show ?case by simp
qed

lemma waitForNextMillisecond_stuck:
  "\<forall>t \<in> set clk. t = lastSystemTime g \<Longrightarrow> waitForNextMillisecond g clk = None"
  by (induction clk) simp_all

lemma generate_wait:
  assumes "waitStrategy g = ''wait''" and "maxSubMs g \<le> subMillisecondCounter g + 1"
  shows "generate g (lastSystemTime g # clk) =
           waitForNextMillisecond (g\<lparr>subMillisecondCounter := subMillisecondCounter g + 1\<rparr>) clk"
  using assms by (simp add: Let_def)

text \<open>
  C4, as the claim states it, fails. The 128-bit generators have no range check: at the
  clock reading \<open>2^48\<close> both variants return a text, no error, and the timestamp field of the
  text is 0. The public \<open>generate\<close> of index.js and \<open>TimestampGenerator.generate\<close> do fail at
  that reading, with errors that name the limit and do not carry the offending value.
\<close>

theorem range_rejection_counterexample:
  "generateV7Base64Url_web \<lparr>lastMs = 0, seq12 = 0\<rparr> [281474976710656] 7 zero_source =
     Some (Some ''AAAAAAAAcAeAAAAAAAAAAA'', \<lparr>lastMs = 281474976710656, seq12 = 7\<rparr>, []) \<and>
   generateV7Base64Url_node \<lparr>lastMs = 0, seq12 = 0\<rparr> [281474976710656] 7 zero_source
     zero_source =
     Some (''AAAAAAAAcAeAAAAAAAAAAA'', \<lparr>lastMs = 281474976710656, seq12 = 7\<rparr>, []) \<and>
   bufferToTimestamp (take 6 (base64_decode ''AAAAAAAAcAeAAAAAAAAAAA'')) = Inr 0 \<and>
   index_generate example_generator [281474976710656] ''buffer'' =
     Some (Inl TimestampExceedsLimit,
           \<lparr>lastSystemTime = 281474976710656, subMillisecondCounter = 0, maxSubMs = 4096,
            waitStrategy = ''increment''\<rparr>, []) \<and>
   TimestampGenerator_generate \<lparr>algorithm = example_generator, defaultFormat = ''hex''\<rparr>
     [281474976710656] None =
     Some (Inl GeneratorTimestampExceedsLimit,
           \<lparr>algorithm =
              \<lparr>lastSystemTime = 281474976710656, subMillisecondCounter = 0, maxSubMs = 4096,
               waitStrategy = ''increment''\<rparr>,
            defaultFormat = ''hex''\<rparr>, [])"
  by code_simp

text \<open>
  C4, amended. A call of \<open>generate\<close> on the 48-bit generator \<open>UUID48Timestamp\<close>, on an
  instance whose \<open>lastSystemTime\<close> is not negative (it starts at 0 and never decreases).

  The call returns after one clock reading, unless it has the \<open>wait\<close> strategy, reads the
  millisecond of \<open>lastSystemTime\<close> and the incremented counter reaches \<open>maxSubMs\<close>; in that
  case it does not return while the clock stays at \<open>lastSystemTime\<close>, and it returns when,
  after the readings equal to \<open>lastSystemTime\<close>, two readings in a row differ from it.

  When the call returns, the value it is about to emit is the one it leaves in
  \<open>lastSystemTime\<close>, and that value is not below the first clock reading. If the value
  exceeds \<open>2^48 - 1\<close> the outcome is the error that carries the value, and no buffer;
  \<open>generate\<close> of index.js and \<open>TimestampGenerator.generate\<close> then fail as well, for every
  format, with their own errors, which name the limit without the value. Otherwise the
  outcome is a buffer of six bytes that reads back as exactly that value: nothing is
  truncated and every emitted value is at most \<open>2^48 - 1\<close>.

  The two 128-bit generators check no range: the text a call returns carries the low 48
  bits of the timestamp the call leaves in \<open>lastMs\<close>.
\<close>

theorem range_rejection_amended:
  assumes "0 \<le> lastSystemTime g"
  shows
    "(waitStrategy g \<noteq> ''wait'' \<or> now \<noteq> lastSystemTime g \<or>
        subMillisecondCounter g + 1 < maxSubMs g \<longrightarrow>
        (\<exists>r g'. generate g (now # clk) = Some (r, g', clk))) \<and>
     (waitStrategy g = ''wait'' \<and> maxSubMs g \<le> subMillisecondCounter g + 1 \<longrightarrow>
        ((\<forall>t \<in> set clk. t = lastSystemTime g) \<longrightarrow>
           generate g (lastSystemTime g # clk) = None) \<and>
        ((\<forall>t \<in> set pre. t = lastSystemTime g) \<and> a \<noteq> lastSystemTime g \<and>
           b \<noteq> lastSystemTime g \<longrightarrow>
           (\<exists>r g'. generate g (lastSystemTime g # pre @ a # b # clk) = Some (r, g', clk)))) \<and>
     (\<forall>r g' clk'. generate g (now # clk) = Some (r, g', clk') \<longrightarrow>
        r = timestampToBuffer (lastSystemTime g') \<and> now \<le> lastSystemTime g' \<and>
        (if lastSystemTime g' > 0xFFFFFFFFFFFF
         then r = Inl (Exceeds48BitLimit (lastSystemTime g')) \<and>
              index_generate g (now # clk) format = Some (Inl TimestampExceedsLimit, g', clk') \<and>
              TimestampGenerator_generate \<lparr>algorithm = g, defaultFormat = d\<rparr> (now # clk) fmt =
                Some (Inl GeneratorTimestampExceedsLimit,
                      \<lparr>algorithm = g', defaultFormat = d\<rparr>, clk')
         else \<exists>buf. r = Inr buf \<and> length buf = 6 \<and> bufferValue buf \<le> 0xFFFFFFFFFFFF \<and>
                bufferToTimestamp buf = Inr (lastSystemTime g'))) \<and>
     (generateV7Base64Url_node st trace randomInt randomBytes unwritten =
        Some (out, st', trace') \<longrightarrow>
        bufferValue (take 6 (base64_decode out)) = take_bit 48 (lastMs st')) \<and>
     (generateV7Base64Url_web st trace randomValue randomValues =
        Some (Some out', st'', trace'') \<longrightarrow>
        bufferValue (take 6 (base64_decode out')) = take_bit 48 (lastMs st''))"
proof (intro conjI)
  show "waitStrategy g \<noteq> ''wait'' \<or> now \<noteq> lastSystemTime g \<or>
        subMillisecondCounter g + 1 < maxSubMs g \<longrightarrow>
        (\<exists>r g'. generate g (now # clk) = Some (r, g', clk))"
    using generate_returns_at_once [of g now clk] by blast
next
  show "waitStrategy g = ''wait'' \<and> maxSubMs g \<le> subMillisecondCounter g + 1 \<longrightarrow>
        ((\<forall>t \<in> set clk. t = lastSystemTime g) \<longrightarrow>
           generate g (lastSystemTime g # clk) = None) \<and>
        ((\<forall>t \<in> set pre. t = lastSystemTime g) \<and> a \<noteq> lastSystemTime g \<and>
           b \<noteq> lastSystemTime g \<longrightarrow>
           (\<exists>r g'. generate g (lastSystemTime g # pre @ a # b # clk) = Some (r, g', clk)))"
  proof (intro impI conjI)
    let ?g1 = "g\<lparr>subMillisecondCounter := subMillisecondCounter g + 1\<rparr>"
    assume w: "waitStrategy g = ''wait'' \<and> maxSubMs g \<le> subMillisecondCounter g + 1"
    then have gw: "generate g (lastSystemTime g # c) = waitForNextMillisecond ?g1 c" for c
      by (intro generate_wait) simp_all
    {
      assume "\<forall>t \<in> set clk. t = lastSystemTime g"
      then have "\<forall>t \<in> set clk. t = lastSystemTime ?g1" by simp
      from waitForNextMillisecond_stuck [OF this] gw
      show "generate g (lastSystemTime g # clk) = None" by simp
    }
    {
      assume "(\<forall>t \<in> set pre. t = lastSystemTime g) \<and> a \<noteq> lastSystemTime g \<and>
           b \<noteq> lastSystemTime g"
      then have "\<forall>t \<in> set pre. t = lastSystemTime ?g1" "a \<noteq> lastSystemTime ?g1"
        "b \<noteq> lastSystemTime ?g1" by simp_all
      from waitForNextMillisecond_returns [OF this, of clk] gw
      show "\<exists>r g'. generate g (lastSystemTime g # pre @ a # b # clk) = Some (r, g', clk)"
        by simp
    }
  qed
next
  show "\<forall>r g' clk'. generate g (now # clk) = Some (r, g', clk') \<longrightarrow>
        r = timestampToBuffer (lastSystemTime g') \<and> now \<le> lastSystemTime g' \<and>
        (if lastSystemTime g' > 0xFFFFFFFFFFFF
         then r = Inl (Exceeds48BitLimit (lastSystemTime g')) \<and>
              index_generate g (now # clk) format = Some (Inl TimestampExceedsLimit, g', clk') \<and>
              TimestampGenerator_generate \<lparr>algorithm = g, defaultFormat = d\<rparr> (now # clk) fmt =
                Some (Inl GeneratorTimestampExceedsLimit,
                      \<lparr>algorithm = g', defaultFormat = d\<rparr>, clk')
         else \<exists>buf. r = Inr buf \<and> length buf = 6 \<and> bufferValue buf \<le> 0xFFFFFFFFFFFF \<and>
                bufferToTimestamp buf = Inr (lastSystemTime g'))"
  proof (intro allI impI)
    fix r g' clk'
    assume gen: "generate g (now # clk) = Some (r, g', clk')"
    from generate_emits(1) [OF gen]
    have r: "r = timestampToBuffer (lastSystemTime g')"
      and "lastSystemTime g \<le> lastSystemTime g'"
      by simp_all
    with assms have nn: "0 \<le> lastSystemTime g'" by simp
    note le = generate_reading_le [OF gen]
    have "if lastSystemTime g' > 0xFFFFFFFFFFFF
         then r = Inl (Exceeds48BitLimit (lastSystemTime g')) \<and>
              index_generate g (now # clk) format = Some (Inl TimestampExceedsLimit, g', clk') \<and>
              TimestampGenerator_generate \<lparr>algorithm = g, defaultFormat = d\<rparr> (now # clk) fmt =
                Some (Inl GeneratorTimestampExceedsLimit,
                      \<lparr>algorithm = g', defaultFormat = d\<rparr>, clk')
         else \<exists>buf. r = Inr buf \<and> length buf = 6 \<and> bufferValue buf \<le> 0xFFFFFFFFFFFF \<and>
                bufferToTimestamp buf = Inr (lastSystemTime g')"
    proof (cases "lastSystemTime g' > 0xFFFFFFFFFFFF")
      case True
      with r have e: "r = Inl (Exceeds48BitLimit (lastSystemTime g'))"
        by (simp add: timestampToBuffer_def)
      with gen have "index_generate g (now # clk) format =
          Some (Inl TimestampExceedsLimit, g', clk')"
        by (simp add: index_generate_def)
      moreover from e gen
      have "TimestampGenerator_generate \<lparr>algorithm = g, defaultFormat = d\<rparr> (now # clk) fmt =
                Some (Inl GeneratorTimestampExceedsLimit,
                      \<lparr>algorithm = g', defaultFormat = d\<rparr>, clk')"
        by (simp add: TimestampGenerator_generate_def)
      ultimately show ?thesis using True e by simp
    next
      case False
      with timestampToBuffer_cases [of "lastSystemTime g'"] r
      obtain buf where b: "r = Inr buf" by auto
      with r have tb: "timestampToBuffer (lastSystemTime g') = Inr buf" by simp
      from bufferToTimestamp_timestampToBuffer [OF tb nn]
      have rt: "bufferToTimestamp buf = Inr (lastSystemTime g')" .
      then have "bufferValue buf \<le> 0xFFFFFFFFFFFF"
        by (simp add: bufferToTimestamp_def validateBuffer_def split: if_splits)
      with timestampToBuffer_Inr [OF tb] rt b False show ?thesis by simp
    qed
    with r le show "r = timestampToBuffer (lastSystemTime g') \<and> now \<le> lastSystemTime g' \<and>
        (if lastSystemTime g' > 0xFFFFFFFFFFFF
         then r = Inl (Exceeds48BitLimit (lastSystemTime g')) \<and>
              index_generate g (now # clk) format = Some (Inl TimestampExceedsLimit, g', clk') \<and>
              TimestampGenerator_generate \<lparr>algorithm = g, defaultFormat = d\<rparr> (now # clk) fmt =
                Some (Inl GeneratorTimestampExceedsLimit,
                      \<lparr>algorithm = g', defaultFormat = d\<rparr>, clk')
         else \<exists>buf. r = Inr buf \<and> length buf = 6 \<and> bufferValue buf \<le> 0xFFFFFFFFFFFF \<and>
                bufferToTimestamp buf = Inr (lastSystemTime g'))"
      by (simp only: simp_thms)
  qed
next
  show "generateV7Base64Url_node st trace randomInt randomBytes unwritten =
        Some (out, st', trace') \<longrightarrow>
        bufferValue (take 6 (base64_decode out)) = take_bit 48 (lastMs st')"
  proof
    assume "generateV7Base64Url_node st trace randomInt randomBytes unwritten =
        Some (out, st', trace')"
    from node_output [OF this]
    have "base64_decode out =
        packUuidV7_node unwritten (lastMs st') (seq12 st') (map randomBytes [0..<8])"
      by (simp add: base64_decode_toBase64Url)
    moreover have "length (map randomBytes [0..<8]) = 8" by simp
    note packUuidV7_timestamp_field(1) [OF this]
    ultimately show "bufferValue (take 6 (base64_decode out)) = take_bit 48 (lastMs st')"
      by simp
  qed
next
  show "generateV7Base64Url_web st trace randomValue randomValues =
        Some (Some out', st'', trace'') \<longrightarrow>
        bufferValue (take 6 (base64_decode out')) = take_bit 48 (lastMs st'')"
  proof
    assume "generateV7Base64Url_web st trace randomValue randomValues =
        Some (Some out', st'', trace'')"
    from web_output [OF this] obtain b where
      b: "out' = toBase64Url b"
        "packUuidV7_web (lastMs st'') (seq12 st'') (randomTail8 randomValues) = Some b"
      by auto
    have "length (randomTail8 randomValues) = 8" by (simp add: randomTail8_def)
    from packUuidV7_timestamp_field(2) [OF this, of "lastMs st''" "seq12 st''"] b(2)
    have "bufferValue (take 6 b) = take_bit 48 (lastMs st'')" by auto
    with b(1) show "bufferValue (take 6 (base64_decode out')) = take_bit 48 (lastMs st'')"
      by (simp add: base64_decode_toBase64Url)
  qed
qed

theorem range_rejection_amended_witness:
  "0 \<le> lastSystemTime example_generator \<and>
   generate example_generator [281474976710656] =
     Some (Inl (Exceeds48BitLimit 281474976710656),
           example_generator\<lparr>lastSystemTime := 281474976710656, subMillisecondCounter := 0\<rparr>,
           []) \<and>
   index_generate example_generator [281474976710656] ''hex'' =
     Some (Inl TimestampExceedsLimit,
           example_generator\<lparr>lastSystemTime := 281474976710656, subMillisecondCounter := 0\<rparr>,
           []) \<and>
   generate example_generator [281474976710655] =
     Some (Inr [255, 255, 255, 255, 255, 255],
           example_generator\<lparr>lastSystemTime := 281474976710655, subMillisecondCounter := 0\<rparr>,
           []) \<and>
   bufferToTimestamp [255, 255, 255, 255, 255, 255] = Inr 281474976710655 \<and>
   (waitStrategy (example_generator\<lparr>waitStrategy := ''wait'', maxSubMs := 4\<rparr>) = ''wait'' \<and>
    maxSubMs (example_generator\<lparr>waitStrategy := ''wait'', maxSubMs := 4\<rparr>)
      \<le> subMillisecondCounter (example_generator\<lparr>waitStrategy := ''wait'', maxSubMs := 4\<rparr>) + 1) \<and>
   generate (example_generator\<lparr>waitStrategy := ''wait'', maxSubMs := 4\<rparr>) [10, 10, 10] = None \<and>
   generate (example_generator\<lparr>waitStrategy := ''wait'', maxSubMs := 4\<rparr>)
     [10, 10, 12, 281474976710656] =
     Some (Inl (Exceeds48BitLimit 281474976710656),
           example_generator\<lparr>waitStrategy := ''wait'', maxSubMs := 4,
             lastSystemTime := 281474976710656, subMillisecondCounter := 0\<rparr>, [])"
proof -
  let ?w = "example_generator\<lparr>waitStrategy := ''wait'', maxSubMs := 4\<rparr>"
  have h: "0 \<le> lastSystemTime example_generator" by (simp add: example_generator_def)
  have hw: "0 \<le> lastSystemTime ?w" by (simp add: example_generator_def)
  have wait: "waitStrategy ?w = ''wait'' \<and> maxSubMs ?w \<le> subMillisecondCounter ?w + 1"
    by (simp add: example_generator_def)
  have over: "generate example_generator [281474976710656] =
     Some (Inl (Exceeds48BitLimit 281474976710656),
           example_generator\<lparr>lastSystemTime := 281474976710656, subMillisecondCounter := 0\<rparr>,
           [])"
    by (simp add: example_generator_def handleNewMillisecond_def timestampToBuffer_def)
  have top: "generate example_generator [281474976710655] =
     Some (Inr [255, 255, 255, 255, 255, 255],
           example_generator\<lparr>lastSystemTime := 281474976710655, subMillisecondCounter := 0\<rparr>,
           [])"
    by (simp add: example_generator_def handleNewMillisecond_def timestampToBuffer_def)
  from range_rejection_amended [OF h, of 281474976710656 "[]" _ _ _ "''hex''"] over
  have idx: "index_generate example_generator [281474976710656] ''hex'' =
     Some (Inl TimestampExceedsLimit,
           example_generator\<lparr>lastSystemTime := 281474976710656, subMillisecondCounter := 0\<rparr>,
           [])"
    by simp
  from range_rejection_amended [OF h, of 281474976710655 "[]"] top
  have rt: "bufferToTimestamp [255, 255, 255, 255, 255, 255] = Inr 281474976710655"
    by (simp add: example_generator_def)
  from range_rejection_amended [OF hw, of _ "[10, 10]"] wait
  have stuck: "generate ?w [10, 10, 10] = None"
    by (simp add: example_generator_def)
  have w: "generate ?w [10, 10, 12, 281474976710656] =
     Some (Inl (Exceeds48BitLimit 281474976710656),
           ?w\<lparr>lastSystemTime := 281474976710656, subMillisecondCounter := 0\<rparr>, [])"
    by (simp add: example_generator_def Let_def timestampToBuffer_def handleNewMillisecond_def)
  from h over idx top rt wait stuck w show ?thesis by simp
qed

end
